(* ===== verification/Prelude.thy ===== *)
theory Prelude
  imports Complex_Main "HOL-Library.Word" "HOL-Library.AList"
begin

text \<open>
  Shared vocabulary of the development: the machine types of the Rust sources
  (\<open>u8\<close>, \<open>u32\<close>, \<open>u64\<close> as words), the panics of the program as one error
  type, and models of the few Rust standard-library operations the sources
  rely on for their observable behaviour: \<open>to_string\<close> on unsigned integers
  (decimal printing) and \<open>Vec::swap_remove(0)\<close>.  The lemmas here are the
  generic facts the component theories share; the ones that rewrite are in
  the collection \<open>model_simps\<close>.
\<close>

named_theorems model_simps "rewrite rules of the shared Rust library models"

type_synonym u8 = "8 word"
type_synonym u32 = "32 word"
type_synonym u64 = "64 word"
type_synonym bytes = "u8 list"

text \<open>
  Every \<open>panic!\<close>, failed \<open>unwrap\<close>, out-of-range index and integer division
  by zero of the sources becomes a value of this type (the left side of a sum).
\<close>

datatype panic =
    DivisionByZero
  | IndexOutOfBounds
  | MissingKey
  | InvalidWorkload
  | InvalidDb
  | InvalidFieldLengthDistribution
  | WorkerPanicked
  | UnwrapNone
  | UnwrapErr
  | ConfigError

subsection \<open>Decimal printing: \<open>to_string\<close> on unsigned integers\<close>

definition digit_char :: "nat \<Rightarrow> char" where
  "digit_char d = char_of (48 + d)"

fun dec_string :: "nat \<Rightarrow> string" where
  "dec_string n =
     (if n < 10 then [digit_char n] else dec_string (n div 10) @ [digit_char (n mod 10)])"

declare dec_string.simps [simp del]

text \<open>\<open>char::is_ascii_digit\<close>.\<close>

definition is_digit :: "char \<Rightarrow> bool" where
  "is_digit c \<longleftrightarrow> 48 \<le> (of_char c :: nat) \<and> (of_char c :: nat) \<le> 57"

text \<open>The inverse reading of a digit string (leading zeros are harmless).\<close>

definition dec_value :: "string \<Rightarrow> nat" where
  "dec_value s = foldl (\<lambda>acc c. 10 * acc + (of_char c - 48)) (0::nat) s"

subsection \<open>\<open>Vec::swap_remove(0)\<close>\<close>

text \<open>
  \<open>v.swap_remove(0)\<close> on \<open>x # xs\<close> returns \<open>x\<close> and leaves the last element
  of \<open>xs\<close> in front of the others: this is what remains.
\<close>

definition swap_rest :: "'a list \<Rightarrow> 'a list" where
  "swap_rest xs = (if xs = [] then [] else last xs # butlast xs)"

text \<open>The order in which a \<open>while !v.is_empty() { .. v.swap_remove(0) .. }\<close> loop visits \<open>v\<close>.\<close>

fun swap_order :: "'a list \<Rightarrow> 'a list" where
  "swap_order [] = []"
| "swap_order (x # xs) = x # rev xs"

subsection \<open>Lemmas: decimal printing and its inverse\<close>

lemma dec_value_snoc [model_simps]:
  "dec_value (s @ [c]) = 10 * dec_value s + (of_char c - 48)"
  by (simp add: dec_value_def)

lemma of_char_digit_char:
  "d < 10 \<Longrightarrow> of_char (digit_char d) - 48 = d"
  by (simp add: digit_char_def)

lemma dec_value_dec_string [model_simps]: "dec_value (dec_string n) = n"
proof (induction n rule: dec_string.induct)
  case (1 n)
  show ?case
  proof (cases "n < 10")
    case True
    then have "dec_value [digit_char n] = n"
      using dec_value_snoc [of "[]" "digit_char n"]
      by (simp add: of_char_digit_char dec_value_def)
    with True show ?thesis by (simp add: dec_string.simps [of n])
  next
    case False
    with "1.IH" have "dec_value (dec_string (n div 10)) = n div 10" by simp
    with False show ?thesis
      by (simp add: dec_string.simps [of n] dec_value_snoc of_char_digit_char)
  qed
qed

lemma dec_value_zeros [model_simps]:
  "dec_value (replicate k (CHR ''0'') @ s) = dec_value s"
proof -
  have "foldl (\<lambda>acc c. 10 * acc + (of_char c - 48)) (0::nat) (replicate k (CHR ''0'')) = 0"
    by (induction k) simp_all
  then show ?thesis by (simp add: dec_value_def)
qed

lemma all_digits_dec_string: "list_all is_digit (dec_string n)"
proof (induction n rule: dec_string.induct)
  case (1 n)
  have d: "is_digit (digit_char d)" if "d < 10" for d
    using that by (simp add: is_digit_def digit_char_def)
  show ?case using 1 d by (subst dec_string.simps) simp
qed

lemma dec_string_inj: "dec_string m = dec_string n \<Longrightarrow> m = n"
  by (metis dec_value_dec_string)

lemma dec_string_nonempty [model_simps]: "dec_string n \<noteq> []"
  by (subst dec_string.simps) simp

lemma length_dec_string_le:
  "n < 10 ^ k \<Longrightarrow> 0 < k \<Longrightarrow> length (dec_string n) \<le> k"
proof (induction n arbitrary: k rule: dec_string.induct)
  case (1 n)
  show ?case
  proof (cases "n < 10")
    case True
    with "1.prems" show ?thesis by (simp add: dec_string.simps [of n])
  next
    case False
    have "k \<noteq> 0" using "1.prems" by auto
    moreover have "k \<noteq> 1" using "1.prems" False by auto
    ultimately obtain k' where k: "k = Suc k'" and "0 < k'"
      by (metis One_nat_def gr0I not0_implies_Suc)
    with "1.prems" have "n div 10 < 10 ^ k'" by (simp add: less_mult_imp_div_less mult.commute)
    with "1.IH" False \<open>0 < k'\<close> have "length (dec_string (n div 10)) \<le> k'" by simp
    with False k show ?thesis by (simp add: dec_string.simps [of n])
  qed
qed

text \<open>A \<open>u64\<close> prints in at most 20 digits, a \<open>u32\<close> in at most 10.\<close>

lemma length_dec_string_u64: "length (dec_string (unat (n :: u64))) \<le> 20"
proof -
  have "unat n < 2 ^ 64" using unsigned_less [of n] by simp
  also have "(2::nat) ^ 64 < 10 ^ 20" by simp
  finally show ?thesis by (rule length_dec_string_le) simp
qed

subsection \<open>Lemmas: \<open>swap_remove\<close> and association lists\<close>

lemma length_swap_rest [model_simps]: "length (swap_rest xs) = length xs"
  by (simp add: swap_rest_def)

lemma set_swap_rest [model_simps]: "set (swap_rest xs) = set xs"
  by (cases xs rule: rev_cases) (auto simp: swap_rest_def)

lemma distinct_map_swap_rest [model_simps]:
  "distinct (map f (swap_rest xs)) = distinct (map f xs)"
  by (cases xs rule: rev_cases) (auto simp: swap_rest_def)

lemma swap_order_swap_rest [model_simps]: "swap_order (swap_rest xs) = rev xs"
  by (cases xs rule: rev_cases) (simp_all add: swap_rest_def)

lemma map_of_swap_rest [model_simps]:
  "distinct (map fst xs) \<Longrightarrow> map_of (swap_rest xs) = map_of xs"
  by (metis distinct_map_swap_rest map_of_inject_set set_swap_rest)

subsection \<open>Lemmas: machine words\<close>

lemma unat_u64_bound: "unat (w :: u64) < 2 ^ 64"
  using unsigned_less [of w] by simp

lemma unat_u32_bound: "unat (w :: u32) < 2 ^ 32"
  using unsigned_less [of w] by simp

lemma unat_ucast_u32_u64 [model_simps]: "unat (ucast (w::u32) :: u64) = unat w"
proof -
  have "unat w < 2 ^ 64" using unat_u32_bound [of w] by simp
  then show ?thesis by (simp add: unsigned_ucast_eq take_bit_nat_eq_self)
qed

lemma unat_word_of_nat_u64 [model_simps]:
  "n < 2 ^ 64 \<Longrightarrow> unat (word_of_nat n :: u64) = n"
  by (simp add: unat_of_nat)

lemma length_update_distinct:
  "length (AList.update k v al) = (if k \<in> fst ` set al then length al else Suc (length al))"
  by (induction al) auto

lemma unat_word_of_nat_u32: "i < 2 ^ 32 \<Longrightarrow> unat (word_of_nat i :: u32) = i"
  by (simp add: unat_of_nat)

lemma unat_add_of_nat_u64:
  "unat c + i < 2 ^ 64 \<Longrightarrow> unat ((c :: u64) + word_of_nat i) = unat c + i"
proof -
  assume h: "unat c + i < 2 ^ 64"
  have "c + word_of_nat i = (word_of_nat (unat c + i) :: u64)" by simp
  then show ?thesis using h by (simp only: unat_word_of_nat_u64)
qed

lemma unat_inc_u64: "unat (p :: u64) + 1 < 2 ^ 64 \<Longrightarrow> unat (p + 1) = unat p + 1"
  using unat_add_of_nat_u64 [of p 1] by simp

subsection \<open>Lemmas: sums over the elements of a list\<close>

lemma sum_nth_update:
  assumes "i < length ws"
  shows "(\<Sum>j<length ws. g j (ws[i := x] ! j)) + g i (ws ! i) = (\<Sum>j<length ws. g j (ws ! j)) + (g i x :: nat)"
proof -
  have i: "i \<in> {..<length ws}" using assms by simp
  have r: "(\<Sum>j\<in>{..<length ws} - {i}. g j (ws[i := x] ! j)) = (\<Sum>j\<in>{..<length ws} - {i}. g j (ws ! j))"
    by (rule sum.cong) auto
  show ?thesis
    using sum.remove [OF _ i, of "\<lambda>j. g j (ws[i := x] ! j)"] sum.remove [OF _ i, of "\<lambda>j. g j (ws ! j)"] r assms
    by simp
qed

lemma sums_equal_pointwise:
  assumes le: "\<forall>i<(n::nat). f i \<le> (g i :: nat)" and eq: "(\<Sum>i<n. f i) = (\<Sum>i<n. g i)"
  shows "\<forall>i<n. f i = g i"
proof (rule ccontr)
  assume "\<not> (\<forall>i<n. f i = g i)"
  then obtain k where k: "k < n" "f k < g k" using le le_neq_implies_less by blast
  have "(\<Sum>i<n. f i) < (\<Sum>i<n. g i)"
    by (rule sum_strict_mono_ex1) (use le k in auto)
  with eq show False by simp
qed

lemma image_lessThan_extend:
  "f ` {..<t} \<union> f ` {t..<t + k} = f ` {..<t + (k::nat)}"
proof -
  have "{..<t} \<union> {t..<t + k} = {..<t + k}" by auto
  then show ?thesis by (metis image_Un)
qed

lemma set_map_filter_eq: "set (List.map_filter f xs) = {y. \<exists>x \<in> set xs. f x = Some y}"
  by (induction xs) (auto simp: map_filter_simps split: option.splits)

lemma distinct_nth_not_in_take:
  assumes "distinct (map f xs)" "j < length xs"
  shows "f (xs ! j) \<notin> f ` set (take j xs)"
proof -
  have "xs ! j \<in> set (drop j xs)" using assms(2) by (metis Cons_nth_drop_Suc list.set_intros(1))
  moreover have "distinct (map f (take j xs) @ map f (drop j xs))" using assms(1) by (metis append_take_drop_id map_append)
  ultimately show ?thesis by auto
qed

end
