(* ===== verification/Generators.thy ===== *)
theory Generators
  imports Prelude
begin

text \<open>
  The number generators of \<open>src/ycsb/src/generators/\<close>: \<open>Constant\<close>
  (\<open>constant.rs\<close>), \<open>Counter\<close> (\<open>counter.rs\<close>, an \<open>AtomicU64\<close> advanced by
  \<open>fetch_add(1)\<close>, so a \<open>u64\<close> that wraps) and \<open>Zipfian\<close> (\<open>zipfian.rs\<close>).
  The Zipfian sampler computes in \<open>f64\<close>; it is modelled over \<open>real\<close>
  (exact arithmetic, \<open>powf\<close> as \<open>powr\<close>), with the \<open>u64\<close> item count and
  base kept as words and the saturating \<open>f64 as u64\<close> cast written out.
  A concurrent sequence of \<open>next()\<close> calls on a shared \<open>Counter\<close> is a
  list of calling threads: \<open>fetch_add\<close> is atomic, so the calls are
  linearised in that list.
\<close>

subsection \<open>Constant\<close>

record constant_gen =
  const_value :: u64

definition constant_new :: "u64 \<Rightarrow> constant_gen" where
  "constant_new v = \<lparr>const_value = v\<rparr>"

definition constant_next :: "constant_gen \<Rightarrow> u64" where
  "constant_next g = const_value g"

subsection \<open>Counter\<close>

record counter_gen =
  counter :: u64

definition counter_new :: "u64 \<Rightarrow> counter_gen" where
  "counter_new start = \<lparr>counter = start\<rparr>"

text \<open>\<open>fetch_add(1, Relaxed)\<close>: the old value, and the counter one further (wrapping).\<close>

definition counter_next :: "counter_gen \<Rightarrow> u64 \<times> counter_gen" where
  "counter_next c = (counter c, c\<lparr>counter := counter c + 1\<rparr>)"

text \<open>Calls from several threads, in the order the atomic operations take effect.\<close>

fun counter_calls :: "counter_gen \<Rightarrow> 'tid list \<Rightarrow> ('tid \<times> u64) list \<times> counter_gen" where
  "counter_calls c [] = ([], c)"
| "counter_calls c (t # ts) =
     (let (v, c') = counter_next c; (rs, c'') = counter_calls c' ts in ((t, v) # rs, c''))"

subsection \<open>Zipfian\<close>

record zipfian =
  items :: u64
  base :: u64
  alpha :: real
  zetan :: real
  eta :: real
  theta :: real

definition ZIPFIAN_CONSTANT :: real where
  "ZIPFIAN_CONSTANT = 0.99"

text \<open>\<open>zetastatic(st, n, theta, initialsum)\<close>: the loop \<open>for i in st..n\<close>.\<close>

function zetastatic :: "nat \<Rightarrow> nat \<Rightarrow> real \<Rightarrow> real \<Rightarrow> real" where
  "zetastatic st n th acc =
     (if st < n then zetastatic (Suc st) n th (acc + 1 / (real (st + 1)) powr th) else acc)"
  by pat_completeness auto
termination
  by (relation "measure (\<lambda>(st, n, th, acc). n - st)") auto

declare zetastatic.simps [simp del]

definition zeta :: "nat \<Rightarrow> real \<Rightarrow> real" where
  "zeta n theta_value = zetastatic 0 n theta_value 0"

text \<open>
  \<open>Zipfian::new(min, max, constant, zetan)\<close>: the argument \<open>zetan\<close> is
  shadowed by a recomputation, so it plays no part.
\<close>

definition zipfian_new :: "u64 \<Rightarrow> u64 \<Rightarrow> real \<Rightarrow> real \<Rightarrow> zipfian" where
  "zipfian_new mn mx constant zetan_arg =
     (let zn = zetastatic 0 (unat (mx - mn + 1)) constant 0;
          its = mx - mn + 1;
          th = constant;
          zeta2theta = zeta 2 th
      in \<lparr>items = its, base = mn, alpha = 1 / (1 - th), zetan = zn,
          eta = (1 - 2 / real (unat its)) powr (1 - th) / (1 - zeta2theta / zn),
          theta = th\<rparr>)"

definition zipfian_new_from_range :: "u64 \<Rightarrow> u64 \<Rightarrow> zipfian" where
  "zipfian_new_from_range mn mx =
     zipfian_new mn mx ZIPFIAN_CONSTANT (zetastatic 0 (unat (mx - mn + 1)) ZIPFIAN_CONSTANT 0)"

definition zipfian_new_from_count :: "u64 \<Rightarrow> zipfian" where
  "zipfian_new_from_count n = zipfian_new_from_range 0 (n - 1)"

text \<open>Rust's \<open>f64 as u64\<close>: truncation towards zero, saturating at both ends.\<close>

definition f64_to_u64 :: "real \<Rightarrow> u64" where
  "f64_to_u64 r =
     (if r < 0 then 0 else if 2 ^ 64 \<le> r then - 1 else word_of_nat (nat \<lfloor>r\<rfloor>))"

text \<open>\<open>next()\<close>, given the uniform draw \<open>u \<in> [0, 1)\<close> of \<open>thread_rng().gen::<f64>()\<close>.\<close>

definition zipfian_next :: "zipfian \<Rightarrow> real \<Rightarrow> u64" where
  "zipfian_next z u =
     (let uz = u * zetan z in
      if uz < 1 then base z
      else if uz < 1 + 0.5 powr theta z then base z + 1
      else base z + f64_to_u64 (real (unat (items z)) * (eta z * u - eta z + 1) powr alpha z))"

subsection \<open>The generator interface\<close>

text \<open>
  The trait \<open>Generator<u64>\<close> (\<open>generators/mod.rs\<close>) over its three
  implementations: one call of \<open>next()\<close>, with the uniform draw a Zipfian
  call consumes, and the generator state after the call.
\<close>

datatype number_generator =
    GConstant constant_gen
  | GCounter counter_gen
  | GZipfian zipfian

fun generator_next :: "number_generator \<Rightarrow> real \<Rightarrow> u64 \<times> number_generator" where
  "generator_next (GConstant g) u = (constant_next g, GConstant g)"
| "generator_next (GCounter c) u = (let (v, c') = counter_next c in (v, GCounter c'))"
| "generator_next (GZipfian z) u = (zipfian_next z u, GZipfian z)"

subsection \<open>Counter: distinct values under any interleaving\<close>


lemma counter_calls_eq:
  "counter_calls c ts =
     (zip ts (map (\<lambda>i. counter c + word_of_nat i) [0..<length ts]),
      c\<lparr>counter := counter c + word_of_nat (length ts)\<rparr>)"
proof (induction ts arbitrary: c)
  case Nil
  then show ?case by simp
next
  case (Cons t ts)
  have "map (\<lambda>i. counter c + word_of_nat i) [0..<Suc (length ts)] =
        counter c # map (\<lambda>i. counter c + 1 + word_of_nat i) [0..<length ts]"
    by (simp add: map_upt_Suc del: upt_Suc)
  with Cons.IH [of "c\<lparr>counter := counter c + 1\<rparr>"] show ?case
    by (simp add: counter_next_def add.assoc)
qed

lemma word_of_nat_offset_inj:
  "inj_on (\<lambda>i. s + word_of_nat i :: 'a::len word) {..<2 ^ LENGTH('a)}"
  by (rule inj_onI) (simp add: word_of_nat_eq_iff take_bit_nat_eq_self)

text \<open>
  C3: any number of \<open>next()\<close> calls on one shared \<open>Counter\<close>, up to \<open>2^64\<close> of them
  and from any threads in any interleaving, return pairwise distinct values: the
  \<open>i\<close>-th call returns \<open>start + i\<close> (wrapping).
\<close>

theorem counter_calls_distinct:
  "length ts \<le> 2 ^ 64 \<Longrightarrow>
   distinct (map snd (fst (counter_calls c ts))) \<and>
   set (map snd (fst (counter_calls c ts))) = (\<lambda>i. counter c + word_of_nat i) ` {..<length ts}"
proof -
  assume "length ts \<le> 2 ^ 64"
  moreover have "inj_on (\<lambda>i. counter c + word_of_nat i :: u64) {..<2 ^ 64}"
    using word_of_nat_offset_inj [where 'a = 64] by simp
  ultimately have "inj_on (\<lambda>i. counter c + word_of_nat i) (set [0..<length ts])"
    by (auto elim: inj_on_subset)
  then show ?thesis by (simp add: counter_calls_eq distinct_map atLeast0LessThan)
qed

lemma counter_calls_distinct_witness:
  "length [0::nat, 1, 0] \<le> 2 ^ 64 \<and>
   distinct (map snd (fst (counter_calls (counter_new 7) [0::nat, 1, 0]))) \<and>
   set (map snd (fst (counter_calls (counter_new 7) [0::nat, 1, 0]))) =
     (\<lambda>i. counter (counter_new 7) + word_of_nat i) ` {..<length [0::nat, 1, 0]}"
  using counter_calls_distinct [of "[0::nat, 1, 0]" "counter_new 7"] by simp

text \<open>
  C4: when \<open>start + N\<close> does not pass \<open>2^64\<close>, \<open>N\<close> calls return exactly the
  numbers \<open>start, start + 1, ..., start + N - 1\<close>, in the order the calls take effect.
\<close>

theorem counter_calls_exact_range:
  "unat (counter c) + length ts \<le> 2 ^ 64 \<Longrightarrow>
   map (unat \<circ> snd) (fst (counter_calls c ts)) = [unat (counter c)..<unat (counter c) + length ts]"
proof -
  assume b: "unat (counter c) + length ts \<le> 2 ^ 64"
  have "unat (counter c + word_of_nat i) = unat (counter c) + i" if "i < length ts" for i
  proof -
    have "i < 2 ^ 64" using b that by linarith
    then have "unat (word_of_nat i :: u64) = i" by (simp add: unat_of_nat)
    moreover have "unat (counter c) + i < 2 ^ 64" using b that by linarith
    ultimately show ?thesis using unat_add_lem [of "counter c" "word_of_nat i"] by simp
  qed
  then have "map unat (map (\<lambda>i. counter c + word_of_nat i) [0..<length ts]) =
             [unat (counter c)..<unat (counter c) + length ts]"
    by (intro nth_equalityI) simp_all
  then show ?thesis
    by (simp add: counter_calls_eq map_snd_zip flip: map_map)
qed

lemma counter_calls_exact_range_witness:
  "unat (counter (counter_new 5)) + length [True, False] \<le> 2 ^ 64 \<and>
   map (unat \<circ> snd) (fst (counter_calls (counter_new 5) [True, False])) = [5, 6]"
proof -
  have h: "unat (counter (counter_new 5)) + length [True, False] \<le> 2 ^ 64"
    by (simp add: counter_new_def)
  have "[unat (counter (counter_new 5))..<unat (counter (counter_new 5)) + length [True, False]] = [5, 6]"
    by (simp add: counter_new_def upt_rec)
  with h counter_calls_exact_range [OF h] show ?thesis by simp
qed

subsection \<open>Zipfian: the sample stays in range\<close>

lemma zetastatic_sum:
  "zetastatic st n th acc = acc + (\<Sum>i = st..<n. 1 / real (i + 1) powr th)"
proof (induction st n th acc rule: zetastatic.induct)
  case (1 st n th acc)
  show ?case
  proof (cases "st < n")
    case True
    with "1.IH" show ?thesis
      by (simp add: zetastatic.simps [of st n th acc] sum.atLeast_Suc_lessThan)
  next
    case False
    then show ?thesis by (simp add: zetastatic.simps [of st n th acc])
  qed
qed

lemma zeta_two: "zeta 2 th = 1 + 0.5 powr th"
proof -
  have "(0.5::real) powr th = 1 / 2 powr th"
    by (simp add: powr_divide)
  then show ?thesis
    by (simp add: zeta_def zetastatic_sum numeral_2_eq_2)
qed

lemma zetan_split:
  "2 \<le> n \<Longrightarrow> (\<Sum>i = 0..<n. 1 / real (i + 1) powr th) =
     (1 + 0.5 powr th) + (\<Sum>i = 2..<n. 1 / real (i + 1) powr th)"
  using sum.atLeastLessThan_concat [of 0 2 n "\<lambda>i. 1 / real (i + 1) powr th"]
    zeta_two [of th]
  by (simp add: zeta_def zetastatic_sum)

lemma zetan_pos: "1 \<le> n \<Longrightarrow> 0 < (\<Sum>i = 0..<n. 1 / real (i + 1) powr th)"
  by (rule sum_pos) auto

lemma zetan_gt_zeta2:
  "3 \<le> n \<Longrightarrow> 1 + 0.5 powr th < (\<Sum>i = 0..<n. 1 / real (i + 1) powr th)"
proof -
  assume n: "3 \<le> n"
  have "0 < (\<Sum>i = 2..<n. 1 / real (i + 1) powr th)"
    using n by (intro sum_pos) auto
  with zetan_split [of n th] n show ?thesis by simp
qed

text \<open>The argument of the final \<open>powf\<close> lies in [0, 1).\<close>

lemma zipfian_tail_arg:
  fixes Z u th :: real and n :: nat
  assumes n: "3 \<le> n" and th: "0 < th" "th < 1" and u: "u < 1"
    and Z: "Z = (\<Sum>i = 0..<n. 1 / real (i + 1) powr th)"
    and tail: "1 + 0.5 powr th \<le> u * Z"
  defines "e \<equiv> (1 - 2 / real n) powr (1 - th) / (1 - zeta 2 th / Z)"
  shows "0 \<le> e * u - e + 1 \<and> e * u - e + 1 < 1"
proof -
  let ?z2 = "1 + 0.5 powr th"
  have Zpos: "0 < Z" using Z zetan_pos [of n th] n by simp
  have z2Z: "?z2 < Z" using Z zetan_gt_zeta2 [OF n] by simp
  define d where "d = 1 - ?z2 / Z"
  have d: "0 < d" using z2Z Zpos by (simp add: d_def)
  define p where "p = (1 - 2 / real n) powr (1 - th)"
  have base_pos: "0 < 1 - 2 / real n" using n by (simp add: field_simps)
  have p: "0 < p" "p \<le> 1"
    using base_pos th n by (auto simp: p_def intro!: powr_le1)
  have e: "e = p / d" by (simp add: e_def p_def d_def zeta_two)
  have epos: "0 < e" using p d e by simp
  have "?z2 / Z \<le> u" using tail Zpos by (simp add: divide_le_eq mult.commute)
  then have "1 - u \<le> d" by (simp add: d_def)
  then have "e * (1 - u) \<le> e * d" using epos by simp
  also have "e * d = p" using d e by simp
  finally have lo: "e * (1 - u) \<le> 1" using p by simp
  have hi: "0 < e * (1 - u)" using epos u by simp
  from lo hi show ?thesis by (simp add: algebra_simps)
qed

lemma f64_to_u64_below:
  "0 \<le> y \<Longrightarrow> y < real n \<Longrightarrow> n \<le> 2 ^ 64 \<Longrightarrow>
   \<exists>k. k < n \<and> f64_to_u64 y = word_of_nat k"
proof -
  assume y: "0 \<le> y" "y < real n" and n: "n \<le> 2 ^ 64"
  have "y < 2 ^ 64" using y n
    by (metis (mono_tags, opaque_lifting) less_le_trans numeral_power_eq_of_nat_cancel_iff of_nat_le_iff)
  moreover have "nat \<lfloor>y\<rfloor> < n" using y by linarith
  ultimately show ?thesis using y by (auto simp: f64_to_u64_def)
qed

lemma zipfian_items:
  "mx - mn + 1 \<noteq> 0 \<Longrightarrow> mn \<le> mx \<Longrightarrow> unat (mx - mn + 1) = unat mx - unat mn + 1"
  for mn mx :: u64
proof -
  assume nz: "mx - mn + 1 \<noteq> 0" and le: "mn \<le> mx"
  have "unat (1 + (mx - mn)) = Suc (unat (mx - mn))"
    using nz by (intro unatSuc) (simp add: add.commute)
  moreover have "unat (mx - mn) = unat mx - unat mn" using le by (rule unat_sub)
  ultimately show ?thesis by (simp add: add.commute)
qed

lemma zipfian_offset:
  fixes mn mx :: u64
  assumes th: "0 < th" "th < 1" and N: "mx - mn + 1 \<noteq> 0" and u: "0 \<le> u" "u < 1"
  shows "\<exists>k < unat (mx - mn + 1). zipfian_next (zipfian_new mn mx th zn) u = mn + word_of_nat k"
proof -
  define N where "N = unat (mx - mn + 1)"
  define Z where "Z = (\<Sum>i = 0..<N. 1 / real (i + 1) powr th)"
  have N1: "1 \<le> N" using N by (simp add: N_def unat_gt_0 Suc_le_eq)
  have Zpos: "0 < Z" using zetan_pos [OF N1] by (simp add: Z_def)
  have uZ: "u * Z < Z" using Zpos u by simp
  have Z1: "N = 1 \<Longrightarrow> Z = 1" by (simp add: Z_def)
  have Z2: "N = 2 \<Longrightarrow> Z = 1 + 0.5 powr th" using zetan_split [of 2 th] by (simp add: Z_def)
  let ?z = "zipfian_new mn mx th zn"
  have z: "zetan ?z = Z" "base ?z = mn" "theta ?z = th" "unat (items ?z) = N"
    by (simp_all add: zipfian_new_def Let_def zetastatic_sum Z_def N_def)
  show ?thesis
  proof (cases "u * Z < 1")
    case True
    then have "zipfian_next ?z u = mn + word_of_nat 0" by (simp add: zipfian_next_def z)
    with N1 show ?thesis unfolding N_def by (intro exI [of _ 0]) simp
  next
    case lo: False
    show ?thesis
    proof (cases "u * Z < 1 + 0.5 powr th")
      case True
      have "N \<noteq> 1" using Z1 lo u by auto
      then have "1 < N" using N1 by simp
      moreover have "zipfian_next ?z u = mn + word_of_nat 1"
        using lo True by (simp add: zipfian_next_def z)
      ultimately show ?thesis unfolding N_def by (intro exI [of _ 1]) simp
    next
      case tail: False
      have "N \<noteq> 1" using Z1 lo u by auto
      moreover have "N \<noteq> 2" using Z2 tail uZ by auto
      ultimately have N3: "3 \<le> N" using N1 by simp
      define x where "x = eta ?z * u - eta ?z + 1"
      have "eta ?z = (1 - 2 / real N) powr (1 - th) / (1 - zeta 2 th / Z)"
        by (simp add: zipfian_new_def Let_def zetastatic_sum Z_def N_def)
      then have x: "0 \<le> x" "x < 1"
        using zipfian_tail_arg [OF N3 th u(2) Z_def] tail by (simp_all add: x_def)
      have a: "0 < alpha ?z" using th by (simp add: zipfian_new_def Let_def)
      have "x powr alpha ?z < 1"
      proof (cases "x = 0")
        case True
        then show ?thesis by simp
      next
        case False
        then show ?thesis using powr_less_mono2 [OF a x(1) x(2)] by simp
      qed
      then have y: "0 \<le> real N * x powr alpha ?z" "real N * x powr alpha ?z < real N"
        using N1 by simp_all
      have "N < 2 ^ 64" using unsigned_less [of "mx - mn + 1"] by (simp add: N_def)
      then have "N \<le> 2 ^ 64" by simp
      then obtain k where "k < N" "f64_to_u64 (real N * x powr alpha ?z) = word_of_nat k"
        using f64_to_u64_below [OF y] by blast
      moreover have "zipfian_next ?z u = mn + f64_to_u64 (real N * x powr alpha ?z)"
        using lo tail by (simp add: zipfian_next_def z x_def)
      ultimately show ?thesis unfolding N_def by (intro exI [of _ k]) simp
    qed
  qed
qed

text \<open>
  C6: for \<open>0 < theta < 1\<close> and a range \<open>[min, max]\<close> whose size fits a \<open>u64\<close>,
  every sample of \<open>Zipfian::next\<close> lies in \<open>[min, max]\<close>, whatever the uniform draw
  in \<open>[0, 1)\<close>.
\<close>

theorem zipfian_next_in_range:
  fixes mn mx :: u64
  assumes th: "0 < th" "th < 1" and range: "mn \<le> mx" "mx - mn + 1 \<noteq> 0"
    and u: "0 \<le> u" "u < 1"
  shows "mn \<le> zipfian_next (zipfian_new mn mx th zn) u \<and> zipfian_next (zipfian_new mn mx th zn) u \<le> mx"
proof -
  obtain k where k: "k < unat (mx - mn + 1)"
    and eq: "zipfian_next (zipfian_new mn mx th zn) u = mn + word_of_nat k"
    using zipfian_offset [OF th range(2) u] by blast
  have "unat mn \<le> unat mx" using range(1) by (simp add: word_le_nat_alt)
  then have kb: "unat mn + k \<le> unat mx" using k zipfian_items [OF range(2,1)] by simp
  have mx: "unat mx < 2 ^ 64" using unsigned_less [of mx] by simp
  have kk: "unat (word_of_nat k :: u64) = k"
    using kb mx by (simp add: unat_of_nat)
  have "unat mn + unat (word_of_nat k :: u64) < 2 ^ LENGTH(64)"
    using kb mx kk by simp
  then have "unat (mn + word_of_nat k) = unat mn + k"
    using kk by (subst unat_add_lem [THEN iffD1]) simp_all
  with kb show ?thesis by (simp add: eq word_le_nat_alt)
qed

lemma zipfian_next_in_range_witness:
  "0 < (0.99::real) \<and> (0.99::real) < 1 \<and> (0::u64) \<le> 99 \<and> 99 - 0 + 1 \<noteq> (0::u64) \<and>
   0 \<le> (0.5::real) \<and> (0.5::real) < 1 \<and>
   0 \<le> zipfian_next (zipfian_new 0 99 0.99 0) 0.5 \<and> zipfian_next (zipfian_new 0 99 0.99 0) 0.5 \<le> 99"
  using zipfian_next_in_range [of "0.99" 0 99 "0.5" 0] by simp

text \<open>
  C7: whenever the item count \<open>max - min + 1\<close> wraps to 0 in \<open>u64\<close> (the
  full range \<open>min = 0\<close>, \<open>max = u64::MAX\<close>), \<open>zetan\<close> is the empty sum 0 and
  the sampler returns \<open>min\<close> for every draw, whatever \<open>theta\<close> and whatever
  \<open>zetan\<close> argument \<open>Zipfian::new\<close> is given.
\<close>

theorem zipfian_full_range_degenerate:
  assumes w: "mx - mn + 1 = (0::u64)"
  shows "zipfian_next (zipfian_new mn mx th zn) u = mn"
  using w by (simp add: zipfian_new_def zipfian_next_def zetastatic.simps Let_def)

lemma zipfian_full_range_degenerate_witness:
  "(- 1) - 0 + 1 = (0::u64) \<and> zipfian_next (zipfian_new 0 (- 1) ZIPFIAN_CONSTANT 0) 0.7 = 0"
  using zipfian_full_range_degenerate [of "- 1" 0 ZIPFIAN_CONSTANT 0 "0.7"] by simp

end
