(* ===== verification/Client.thy ===== *)
theory Client
  imports Prelude
begin

text \<open>
  \<open>src/ycsb/src/client.rs\<close>: one \<open>Client\<close> per worker thread.  It owns its
  database handle, shares the workload, and has its own progress counter (an
  \<open>Arc<AtomicU64>\<close> the driver reads).  \<open>Client<T: DB, U: Workload>\<close> is
  generic in the database and the workload; so is this theory: the work of one
  \<open>workload.do_insert(&mut db)\<close> is a parameter \<open>ins\<close>, a step on some state
  \<open>'s\<close> that may panic.  The workload and engine theories supply the concrete
  step.  The load and run phases split a total count over the workers with
  \<open>total / thread_count + (thread_index < total % thread_count ? 1 : 0)\<close>,
  computed in \<open>u64\<close>; a \<open>thread_count\<close> of 0 would divide by zero.
\<close>

record client_properties =
  operation_count :: u64
  record_count :: u64

definition default_client_properties :: client_properties where
  "default_client_properties = \<lparr>operation_count = 0, record_count = 0\<rparr>"

text \<open>The share of \<open>amount\<close> that worker \<open>thread_index\<close> of \<open>thread_count\<close> performs.\<close>

definition partition_count :: "u64 \<Rightarrow> u32 \<Rightarrow> u32 \<Rightarrow> panic + u64" where
  "partition_count amount thread_index thread_count =
     (if thread_count = 0 then Inl DivisionByZero
      else Inr (amount div ucast thread_count +
                (if (ucast thread_index :: u64) < amount mod ucast thread_count then 1 else 0)))"

text \<open>
  The loop of \<open>setup_initial_data\<close>: \<open>count\<close> times \<open>do_insert\<close>, then
  \<open>progress.fetch_add(1)\<close>; a panic in an insert ends the thread.
\<close>

fun insert_loop :: "('s \<Rightarrow> panic + 's) \<Rightarrow> nat \<Rightarrow> 's \<times> u64 \<Rightarrow> panic + 's \<times> u64" where
  "insert_loop ins 0 sp = Inr sp"
| "insert_loop ins (Suc n) (s, p) =
     (case ins s of Inl e \<Rightarrow> Inl e | Inr s' \<Rightarrow> insert_loop ins n (s', p + 1))"

definition setup_initial_data ::
  "('s \<Rightarrow> panic + 's) \<Rightarrow> client_properties \<Rightarrow> u32 \<Rightarrow> u32 \<Rightarrow> 's \<times> u64 \<Rightarrow> panic + 's \<times> u64" where
  "setup_initial_data ins props thread_index thread_count sp =
     (case partition_count (record_count props) thread_index thread_count of
        Inl e \<Rightarrow> Inl e
      | Inr count \<Rightarrow> insert_loop ins (unat count) sp)"

text \<open>\<open>benchmark\<close>: the run phase only counts; no database operation is issued.\<close>

definition benchmark :: "client_properties \<Rightarrow> u32 \<Rightarrow> u32 \<Rightarrow> u64 \<Rightarrow> panic + u64" where
  "benchmark props thread_index thread_count p =
     (case partition_count (operation_count props) thread_index thread_count of
        Inl e \<Rightarrow> Inl e
      | Inr count \<Rightarrow> Inr (((\<lambda>q. q + 1) ^^ unat count) p))"

subsection \<open>Partitioning\<close>

lemma partition_count_unat:
  assumes "thread_count \<noteq> 0"
  shows "partition_count amount thread_index thread_count =
           Inr (word_of_nat (unat amount div unat thread_count +
                (if unat thread_index < unat amount mod unat thread_count then 1 else 0)))"
proof -
  let ?T = "ucast thread_count :: u64" and ?i = "ucast thread_index :: u64"
  have T: "unat ?T = unat thread_count" and i: "unat ?i = unat thread_index"
    by (simp_all add: unat_ucast_u32_u64)
  have d: "unat (amount div ?T) = unat amount div unat thread_count"
    using T by (simp add: unat_div_distrib)
  have m: "unat (amount mod ?T) = unat amount mod unat thread_count"
    using T by (simp add: unat_mod_distrib)
  have lt: "(?i < amount mod ?T) = (unat thread_index < unat amount mod unat thread_count)"
    using i m by (simp add: word_less_nat_alt)
  have "amount div ?T + (if ?i < amount mod ?T then 1 else 0) =
        word_of_nat (unat (amount div ?T)) + (if ?i < amount mod ?T then 1 else 0)"
    by simp
  then show ?thesis
    using assms by (simp add: partition_count_def d lt of_nat_add)
qed

lemma sum_stripes:
  "0 < t \<Longrightarrow> (\<Sum>i<t. r div t + (if i < r mod t then 1 else 0)) = (r :: nat)"
proof -
  assume t: "0 < t"
  have "(\<Sum>i<t. (if i < r mod t then 1 else 0 :: nat)) = card {i. i < t \<and> i < r mod t}"
    by (simp add: sum.If_cases Int_def)
  also have "{i. i < t \<and> i < r mod t} = {..<r mod t}"
    using mod_less_divisor [OF t, of r] by auto
  finally have "(\<Sum>i<t. (if i < r mod t then 1 else 0 :: nat)) = r mod t" by simp
  then show ?thesis by (simp add: sum.distrib)
qed

lemma stripe_le:
  "0 < t \<Longrightarrow> r div t + (if i < r mod t then 1 else 0) \<le> (r :: nat)"
proof -
  assume t: "0 < t"
  have "r = t * (r div t) + r mod t" by simp
  moreover have "r div t \<le> t * (r div t)" using t by simp
  ultimately show ?thesis
  proof (cases "i < r mod t")
    case True
    then have "0 < r mod t" by simp
    moreover have "r div t + (if i < r mod t then 1 else 0) = r div t + 1" using True by simp
    ultimately show ?thesis
      using \<open>r = t * (r div t) + r mod t\<close> \<open>r div t \<le> t * (r div t)\<close> by linarith
  qed simp
qed

lemma unat_partition_count:
  assumes "thread_count \<noteq> 0" "partition_count amount thread_index thread_count = Inr c"
  shows "unat c = unat amount div unat thread_count +
                  (if unat thread_index < unat amount mod unat thread_count then 1 else 0)"
proof -
  define N where "N = unat amount div unat thread_count +
                  (if unat thread_index < unat amount mod unat thread_count then 1 else 0)"
  have "0 < unat thread_count" using assms(1) by (simp add: unat_gt_0)
  then have "N < 2 ^ 64"
    using stripe_le [of "unat thread_count" "unat amount" "unat thread_index"]
      unat_u64_bound [of amount] by (simp add: N_def)
  moreover have "c = word_of_nat N"
    using assms partition_count_unat [OF assms(1), of amount thread_index]
    by (simp add: N_def del: of_nat_add)
  ultimately show ?thesis by (simp add: unat_word_of_nat_u64 N_def del: of_nat_add)
qed

text \<open>
  C1: the shares of all \<open>thread_count\<close> workers add up to exactly the total
  (\<open>recordcount\<close> in the load phase, \<open>operationcount\<close> in the run phase).
\<close>

theorem partition_sum:
  "thread_count \<noteq> 0 \<Longrightarrow>
   (\<Sum>i<unat thread_count. unat (projr (partition_count amount (word_of_nat i) thread_count))) =
   unat amount"
proof -
  assume tc: "thread_count \<noteq> 0"
  let ?r = "unat amount" and ?t = "unat thread_count"
  have "unat (projr (partition_count amount (word_of_nat i) thread_count)) =
        ?r div ?t + (if i < ?r mod ?t then 1 else 0)" if "i < ?t" for i
  proof -
    have "i < 2 ^ 32" using that unat_u32_bound [of thread_count] by simp
    then have "unat (word_of_nat i :: u32) = i" by (simp add: unat_of_nat)
    moreover obtain c where "partition_count amount (word_of_nat i) thread_count = Inr c"
      using tc by (simp add: partition_count_def)
    ultimately show ?thesis using unat_partition_count [OF tc] by simp
  qed
  then have "(\<Sum>i<?t. unat (projr (partition_count amount (word_of_nat i) thread_count))) =
             (\<Sum>i<?t. ?r div ?t + (if i < ?r mod ?t then 1 else 0))"
    by (intro sum.cong) simp_all
  also have "\<dots> = ?r" using tc by (intro sum_stripes) (simp add: unat_gt_0)
  finally show ?thesis .
qed

lemma partition_sum_witness:
  "(4::u32) \<noteq> 0 \<and>
   (\<Sum>i<unat (4::u32). unat (projr (partition_count 1000 (word_of_nat i) 4))) = unat (1000::u64)"
  using partition_sum [of 4 1000] by simp

text \<open>
  C2: no two workers' shares differ by more than one: any share is at most one
  more than any other.
\<close>

theorem partition_balanced:
  "thread_count \<noteq> 0 \<Longrightarrow>
   partition_count amount i thread_count = Inr a \<Longrightarrow>
   partition_count amount j thread_count = Inr b \<Longrightarrow> unat a \<le> unat b + 1"
  by (simp add: unat_partition_count)

lemma partition_balanced_witness:
  "(3::u32) \<noteq> 0 \<and> partition_count 1000 0 3 = Inr 334 \<and> partition_count 1000 1 3 = Inr 333 \<and>
   unat (334::u64) \<le> unat (333::u64) + 1"
proof -
  have h: "partition_count 1000 0 3 = Inr 334" "partition_count 1000 1 3 = Inr 333"
    by (simp_all add: partition_count_def)
  show ?thesis using partition_balanced [of 3 1000 0 334 1 333] h by simp
qed

lemma partition_count_zero_threads:
  "partition_count amount thread_index 0 = Inl DivisionByZero"
  by (simp add: partition_count_def)

subsection \<open>The load and run loops\<close>

lemma insert_loop_total:
  "insert_loop (\<lambda>s. Inr (f s)) n (s, p) = Inr ((f ^^ n) s, p + word_of_nat n)"
  by (induction n arbitrary: s p) (simp_all add: funpow_swap1 add.assoc)

lemma insert_loop_panic:
  "ins s = Inl e \<Longrightarrow> insert_loop ins (Suc n) (s, p) = Inl e"
  by simp

lemma funpow_add_one: "((\<lambda>q. q + 1) ^^ n) (p :: u64) = p + word_of_nat n"
  by (induction n) (simp_all add: add.assoc)

text \<open>
  C5: with an insert step that does not panic, a worker's load phase performs
  exactly its share of inserts and advances its progress counter by that share;
  its run phase advances the counter by its share of the operation count.
\<close>

theorem setup_initial_data_counts:
  "thread_count \<noteq> 0 \<Longrightarrow>
   partition_count (record_count props) thread_index thread_count = Inr c \<Longrightarrow>
   partition_count (operation_count props) thread_index thread_count = Inr d \<Longrightarrow>
   setup_initial_data (\<lambda>s. Inr (f s)) props thread_index thread_count (s, p) =
     Inr ((f ^^ unat c) s, p + c) \<and>
   benchmark props thread_index thread_count p = Inr (p + d)"
  by (simp add: setup_initial_data_def benchmark_def insert_loop_total funpow_add_one)

lemma setup_initial_data_counts_witness:
  "(3::u32) \<noteq> 0 \<and>
   partition_count (record_count \<lparr>operation_count = 5, record_count = 10\<rparr>) 0 3 = Inr 4 \<and>
   setup_initial_data (\<lambda>s. Inr (Suc s)) \<lparr>operation_count = 5, record_count = 10\<rparr> 0 3 (0::nat, 0) =
     Inr ((Suc ^^ unat (4::u64)) 0, 0 + 4) \<and>
   partition_count (operation_count \<lparr>operation_count = 5, record_count = 10\<rparr>) 0 3 = Inr 2 \<and>
   benchmark \<lparr>operation_count = 5, record_count = 10\<rparr> 0 3 0 = Inr (0 + 2)"
proof -
  have h: "partition_count (record_count \<lparr>operation_count = 5, record_count = 10\<rparr>) 0 3 = Inr 4"
    and h2: "partition_count (operation_count \<lparr>operation_count = 5, record_count = 10\<rparr>) 0 3 = Inr 2"
    by (simp_all add: partition_count_def)
  show ?thesis
    using setup_initial_data_counts [where f = Suc and s = 0 and p = 0, OF _ h h2] h h2 by simp
qed

end
