(* ===== verification/Storage.thy ===== *)
theory Storage
  imports Prelude
begin

text \<open>
  The storage engine \<open>StdBTreeMapMutex\<close> of \<open>src/ycsb/src/db/std_btree.rs\<close>
  behind the \<open>DB\<close> trait of \<open>db/mod.rs\<close>.  Its process-wide state, three
  \<open>Lazy\<close> statics, is the record \<open>engine\<close>: the column registry
  \<open>COLUMN_MAPPING\<close> (a \<open>HashMap<String, usize>\<close> from field name to column
  and a \<open>Vec<String>\<close> of the names by column), the counter
  \<open>COLUMN_MAPPING_LEN\<close>, and the table \<open>MUTEX_INSTANCE\<close>, a
  \<open>BTreeMap<String, Vec<Option<Vec<u8>>>>\<close>.  A handle (one per worker)
  holds only its private cache of the registry.  The \<open>HashMap\<close>s are
  association lists kept duplicate-free by \<open>AList.update\<close> (so that
  \<open>len()\<close> is their length), the \<open>BTreeMap\<close> a partial map (no operation in
  scope depends on its key order).  Each lock section is one step of the
  model; \<open>db_insert\<close> is one handle's whole \<open>insert\<close>, and interleavings of
  inserts by several handles are sequences of such calls.  Every indexing
  that can panic (\<open>x.1[i]\<close>, \<open>x.0[&name]\<close>) returns \<open>Inl\<close>.
\<close>

type_synonym row_value = "bytes option list"
type_synonym value_list = "(string \<times> bytes) list"

record column_mapping =
  cm_index :: "(string \<times> nat) list"
  cm_names :: "string list"

definition empty_mapping :: column_mapping where
  "empty_mapping = \<lparr>cm_index = [], cm_names = []\<rparr>"

record engine =
  n_columns :: nat
  columns :: column_mapping
  db :: "string \<rightharpoonup> row_value"

definition engine_init :: engine where
  "engine_init = \<lparr>n_columns = 0, columns = empty_mapping, db = Map.empty\<rparr>"

record handle =
  columns_cache :: column_mapping

definition handle_new :: handle where
  "handle_new = \<lparr>columns_cache = empty_mapping\<rparr>"

text \<open>\<open>x.1.push(name); x.0.insert(name, idx)\<close>.\<close>

definition cm_push :: "string \<Rightarrow> nat \<Rightarrow> column_mapping \<Rightarrow> column_mapping" where
  "cm_push nm i x = x\<lparr>cm_names := cm_names x @ [nm], cm_index := AList.update nm i (cm_index x)\<rparr>"

text \<open>\<open>if row.len() <= idx { row.resize(idx + 1, None) } row[idx] = Some(v)\<close>.\<close>

definition row_put :: "row_value \<Rightarrow> nat \<Rightarrow> bytes \<Rightarrow> row_value" where
  "row_put row idx v =
     (let r = (if length row \<le> idx then row @ replicate (Suc idx - length row) None else row)
      in r[idx := Some v])"

subsection \<open>\<open>get_key_indices\<close> (defined, never called)\<close>

text \<open>First lock section: read access, one lookup per value; \<open>-1\<close> for a miss.\<close>

fun gki_read :: "column_mapping \<Rightarrow> value_list \<Rightarrow> int list \<times> nat \<Rightarrow> int list \<times> nat" where
  "gki_read x [] acc = acc"
| "gki_read x ((k, v) # vs) (idxs, mx) =
     (case map_of (cm_index x) k of
        Some i \<Rightarrow> gki_read x vs (idxs @ [int i], max mx i)
      | None \<Rightarrow> gki_read x vs (idxs @ [-1], mx))"

text \<open>Second lock section: write access; every miss gets the next index.\<close>

fun gki_write :: "value_list \<Rightarrow> nat list \<Rightarrow> column_mapping \<times> int list \<times> nat \<Rightarrow>
    column_mapping \<times> int list \<times> nat" where
  "gki_write vals [] st = st"
| "gki_write vals (i # is) (x, idxs, mx) =
     (if 0 \<le> idxs ! i then gki_write vals is (x, idxs, mx)
      else let new_idx = length (cm_names x)
           in gki_write vals is (cm_push (fst (vals ! i)) new_idx x, idxs[i := int new_idx], new_idx))"

definition get_key_indices :: "column_mapping \<Rightarrow> value_list \<Rightarrow> column_mapping \<times> int list \<times> nat" where
  "get_key_indices x vals =
     (let (idxs, mx) = gki_read x vals ([], 0);
          (x', idxs', mx') = gki_write vals [0..<length vals] (x, idxs, mx)
      in (x', idxs', mx' + 1))"

text \<open>
  The reference for \<open>get_key_indices\<close>: each value in turn gets the
  registry's index of its name, a name not yet registered the next free
  index; the count returned is one more than the largest index.
\<close>

definition key_index_step :: "column_mapping \<times> int list \<Rightarrow> string \<times> bytes \<Rightarrow> column_mapping \<times> int list" where
  "key_index_step st p =
     (case map_of (cm_index (fst st)) (fst p) of
        Some i \<Rightarrow> (fst st, snd st @ [int i])
      | None \<Rightarrow> (cm_push (fst p) (length (cm_names (fst st))) (fst st), snd st @ [int (length (cm_names (fst st)))]))"

definition key_indices_ref :: "column_mapping \<Rightarrow> value_list \<Rightarrow> column_mapping \<times> int list \<times> nat" where
  "key_indices_ref x vals =
     (let (x', is) = foldl key_index_step (x, []) vals in (x', is, Max (set (0 # map nat is)) + 1))"

subsection \<open>\<open>convert_to_row\<close> and \<open>insert\<close>\<close>

text \<open>
  Refreshing the cache: \<open>for i in cache.1.len()..x.0.len()\<close>, copying name
  \<open>x.1[i]\<close> with the registry's current index \<open>x.0[&x.1[i]]\<close>.
\<close>

fun sync_loop :: "column_mapping \<Rightarrow> nat list \<Rightarrow> column_mapping \<Rightarrow> panic + column_mapping" where
  "sync_loop x [] c = Inr c"
| "sync_loop x (i # is) c =
     (if i < length (cm_names x) then
        (case map_of (cm_index x) (cm_names x ! i) of
           None \<Rightarrow> Inl MissingKey
         | Some j \<Rightarrow> sync_loop x is (cm_push (cm_names x ! i) j c))
      else Inl IndexOutOfBounds)"

text \<open>\<open>if cache.1.len() != n_columns.load() { ... }\<close>\<close>

definition sync_cache :: "engine \<Rightarrow> column_mapping \<Rightarrow> panic + column_mapping" where
  "sync_cache e c =
     (if length (cm_names c) \<noteq> n_columns e
      then sync_loop (columns e) [length (cm_names c)..<length (cm_index (columns e))] c
      else Inr c)"

text \<open>
  \<open>while !values.is_empty()\<close>: the head value is looked up in the cache; a
  miss takes the registry's write lock and appends the name at index
  \<open>x.1.len()\<close>, in the registry and in the cache, and then
  \<open>n_columns.fetch_add(0)\<close>; either way the value is stored in the row and
  removed by \<open>swap_remove(0)\<close>.
\<close>

function fill_row :: "engine \<Rightarrow> column_mapping \<Rightarrow> row_value \<Rightarrow> value_list \<Rightarrow>
    engine \<times> column_mapping \<times> row_value" where
  "fill_row e c row [] = (e, c, row)"
| "fill_row e c row ((nm, v) # vs) =
     (case map_of (cm_index c) nm of
        Some idx \<Rightarrow> fill_row e c (row_put row idx v) (swap_rest vs)
      | None \<Rightarrow>
          (let new_idx = length (cm_names (columns e));
               e' = e\<lparr>columns := cm_push nm new_idx (columns e), n_columns := n_columns e + 0\<rparr>;
               c' = cm_push nm new_idx c
           in fill_row e' c' (row_put row new_idx v) (swap_rest vs)))"
  by pat_completeness auto
termination
  by (relation "measure (\<lambda>(e, c, row, vs). length vs)") (simp_all add: length_swap_rest)

definition convert_to_row :: "engine \<Rightarrow> column_mapping \<Rightarrow> value_list \<Rightarrow>
    panic + engine \<times> column_mapping \<times> row_value" where
  "convert_to_row e c vals =
     (let row = replicate (max (length (cm_names c)) (length vals)) None
      in case sync_cache e c of
           Inl err \<Rightarrow> Inl err
         | Inr c' \<Rightarrow> Inr (fill_row e c' row vals))"

text \<open>\<open>DB::insert\<close>: build the row, then \<open>db.lock().insert(key, row)\<close>; always \<open>Ok(())\<close>.\<close>

definition db_insert :: "engine \<Rightarrow> handle \<Rightarrow> string \<Rightarrow> value_list \<Rightarrow> panic + engine \<times> handle" where
  "db_insert e h key vals =
     (case convert_to_row e (columns_cache h) vals of
        Inl err \<Rightarrow> Inl err
      | Inr (e', c', row) \<Rightarrow> Inr (e'\<lparr>db := (db e')(key \<mapsto> row)\<rparr>, h\<lparr>columns_cache := c'\<rparr>))"

subsection \<open>The abstract table\<close>

text \<open>
  What a reader resolving field names through the shared registry sees: a row
  as a map from field name to value, the table as a map from key to such rows.
\<close>

definition abs_row :: "column_mapping \<Rightarrow> row_value \<Rightarrow> string \<rightharpoonup> bytes" where
  "abs_row x row nm =
     (case map_of (cm_index x) nm of
        None \<Rightarrow> None
      | Some i \<Rightarrow> if i < length row then row ! i else None)"

definition abs_db :: "engine \<Rightarrow> string \<rightharpoonup> (string \<rightharpoonup> bytes)" where
  "abs_db e k = map_option (abs_row (columns e)) (db e k)"

text \<open>The registry invariant: a duplicate-free map whose every entry names its own slot.\<close>

definition wf_mapping :: "column_mapping \<Rightarrow> bool" where
  "wf_mapping x \<longleftrightarrow>
     distinct (map fst (cm_index x)) \<and>
     (\<forall>(nm, i) \<in> set (cm_index x). i < length (cm_names x) \<and> cm_names x ! i = nm) \<and>
     set (cm_names x) \<subseteq> fst ` set (cm_index x)"

definition engine_wf :: "engine \<Rightarrow> bool" where
  "engine_wf e \<longleftrightarrow> wf_mapping (columns e) \<and> n_columns e = 0"

text \<open>Positions of a row beyond the registry's columns hold nothing.\<close>

definition tail_none :: "column_mapping \<Rightarrow> row_value \<Rightarrow> bool" where
  "tail_none x row \<longleftrightarrow> (\<forall>j < length row. length (cm_names x) \<le> j \<longrightarrow> row ! j = None)"

definition rows_ok :: "engine \<Rightarrow> bool" where
  "rows_ok e \<longleftrightarrow> (\<forall>r \<in> ran (db e). tail_none (columns e) r)"

subsection \<open>The registry invariant; \<open>insert\<close> never panics\<close>

lemma set_update_sub:
  "set (AList.update k v al) \<subseteq> insert (k, v) (set al)"
  by (induction al) auto

lemma wf_empty_mapping: "wf_mapping empty_mapping"
  by (simp add: wf_mapping_def empty_mapping_def)

lemma wf_lookup:
  "wf_mapping x \<Longrightarrow> map_of (cm_index x) nm = Some i \<Longrightarrow>
   i < length (cm_names x) \<and> cm_names x ! i = nm"
  unfolding wf_mapping_def by (auto dest: map_of_SomeD)

lemma wf_names_lookup:
  "wf_mapping x \<Longrightarrow> i < length (cm_names x) \<Longrightarrow> \<exists>j. map_of (cm_index x) (cm_names x ! i) = Some j"
proof -
  assume wf: "wf_mapping x" and i: "i < length (cm_names x)"
  then have "cm_names x ! i \<in> fst ` set (cm_index x)" by (auto simp: wf_mapping_def)
  then obtain j where "(cm_names x ! i, j) \<in> set (cm_index x)" by auto
  then show ?thesis by (blast dest: weak_map_of_SomeI)
qed

lemma wf_length_index:
  assumes "wf_mapping x" shows "length (cm_index x) \<le> length (cm_names x)"
proof -
  let ?ix = "cm_index x"
  have d: "distinct (map fst ?ix)" and ent: "\<And>a i. (a, i) \<in> set ?ix \<Longrightarrow> i < length (cm_names x) \<and> cm_names x ! i = a"
    using assms by (auto simp: wf_mapping_def)
  have "inj_on snd (set ?ix)"
  proof (rule inj_onI)
    fix p q assume p: "p \<in> set ?ix" and q: "q \<in> set ?ix" and eq: "snd p = snd q"
    obtain a i b j where pq: "p = (a, i)" "q = (b, j)" by (cases p, cases q)
    have "cm_names x ! i = a" "cm_names x ! j = b" using ent p q pq by auto
    with eq pq show "p = q" by simp
  qed
  moreover have "distinct ?ix" using d by (simp add: distinct_map)
  ultimately have "distinct (map snd ?ix)" by (simp add: distinct_map)
  then have "card (set (map snd ?ix)) = length (map snd ?ix)" by (rule distinct_card)
  then have "length ?ix = card (set (map snd ?ix))" by simp
  also have "\<dots> \<le> card {..<length (cm_names x)}"
    by (rule card_mono) (auto dest: ent)
  finally show ?thesis by simp
qed

lemma set_update_cases:
  "p \<in> set (AList.update k v al) \<Longrightarrow> p = (k, v) \<or> p \<in> set al"
  using set_update_sub [of k v al] by auto

lemma entry_push:
  assumes "(a, i) \<in> set (AList.update nm (length ns) ix)"
    and "\<forall>(b, j) \<in> set ix. j < length ns \<and> ns ! j = b"
  shows "i < Suc (length ns) \<and> (ns @ [nm]) ! i = a"
proof -
  have "(a, i) = (nm, length ns) \<or> (a, i) \<in> set ix" using assms(1) by (rule set_update_cases)
  then show ?thesis
  proof
    assume "(a, i) = (nm, length ns)"
    then show ?thesis by simp
  next
    assume "(a, i) \<in> set ix"
    with assms(2) have "i < length ns" "ns ! i = a" by auto
    then show ?thesis by (simp add: nth_append)
  qed
qed

lemma wf_cm_push:
  assumes wf: "wf_mapping x"
  shows "wf_mapping (cm_push nm (length (cm_names x)) x)"
proof -
  let ?n = "length (cm_names x)"
  have d: "distinct (map fst (cm_index x))"
    and ent: "\<forall>(b, j) \<in> set (cm_index x). j < ?n \<and> cm_names x ! j = b"
    and sub: "set (cm_names x) \<subseteq> fst ` set (cm_index x)"
    using wf by (simp_all add: wf_mapping_def)
  have "distinct (map fst (AList.update nm ?n (cm_index x)))" using d by (rule distinct_update)
  moreover have "\<forall>(a, i) \<in> set (AList.update nm ?n (cm_index x)).
                   i < Suc ?n \<and> (cm_names x @ [nm]) ! i = a"
    using entry_push [OF _ ent] by blast
  moreover have "set (cm_names x @ [nm]) \<subseteq> fst ` set (AList.update nm ?n (cm_index x))"
    using sub by (simp add: dom_update) blast
  ultimately show ?thesis by (simp add: wf_mapping_def cm_push_def)
qed

lemma sync_loop_ok:
  "wf_mapping x \<Longrightarrow> \<forall>i \<in> set js. i < length (cm_names x) \<Longrightarrow> \<exists>c'. sync_loop x js c = Inr c'"
proof (induction js arbitrary: c)
  case Nil
  then show ?case by simp
next
  case (Cons i js)
  from Cons.prems have i: "i < length (cm_names x)" by simp
  obtain j where j: "map_of (cm_index x) (cm_names x ! i) = Some j"
    using wf_names_lookup [OF Cons.prems(1) i] by blast
  have "\<exists>c'. sync_loop x js (cm_push (cm_names x ! i) j c) = Inr c'"
    using Cons.IH Cons.prems by simp
  with i j show ?case by simp
qed

lemma sync_cache_ok: "wf_mapping (columns e) \<Longrightarrow> \<exists>c'. sync_cache e c = Inr c'"
proof -
  assume wf: "wf_mapping (columns e)"
  then have "\<forall>i \<in> set [length (cm_names c)..<length (cm_index (columns e))].
               i < length (cm_names (columns e))"
    using wf_length_index [OF wf] by auto
  then show ?thesis using sync_loop_ok [OF wf] by (simp add: sync_cache_def)
qed

lemma fill_row_frame:
  "wf_mapping (columns e) \<Longrightarrow> fill_row e c r vs = (e', c', r') \<Longrightarrow>
   wf_mapping (columns e') \<and> n_columns e' = n_columns e \<and> db e' = db e"
proof (induction e c r vs arbitrary: e' c' r' rule: fill_row.induct)
  case (1 e c row)
  then show ?case by simp
next
  case (2 e c row nm v vs)
  show ?case
  proof (cases "map_of (cm_index c) nm")
    case None
    let ?n = "length (cm_names (columns e))"
    define e1 where "e1 = e\<lparr>columns := cm_push nm ?n (columns e), n_columns := n_columns e + 0\<rparr>"
    define c1 where "c1 = cm_push nm ?n c"
    have eq: "fill_row e c row ((nm, v) # vs) = fill_row e1 c1 (row_put row ?n v) (swap_rest vs)"
      using None by (simp add: e1_def c1_def Let_def)
    have wf1: "wf_mapping (columns e1)" using "2.prems"(1) by (simp add: e1_def wf_cm_push)
    have f1: "fill_row e1 c1 (row_put row ?n v) (swap_rest vs) = (e', c', r')"
      using "2.prems"(2) unfolding eq .
    have "wf_mapping (columns e') \<and> n_columns e' = n_columns e1 \<and> db e' = db e1"
      by (rule "2.IH"(1) [OF None refl e1_def c1_def wf1 f1])
    then show ?thesis by (simp add: e1_def)
  next
    case (Some idx)
    have eq: "fill_row e c row ((nm, v) # vs) = fill_row e c (row_put row idx v) (swap_rest vs)"
      using Some by simp
    have f1: "fill_row e c (row_put row idx v) (swap_rest vs) = (e', c', r')"
      using "2.prems"(2) unfolding eq .
    show ?thesis by (rule "2.IH"(2) [OF Some "2.prems"(1) f1])
  qed
qed

lemma db_insert_ok:
  assumes wf: "engine_wf e"
  shows "\<exists>e' h'. db_insert e h k vals = Inr (e', h') \<and> engine_wf e' \<and> dom (db e') = insert k (dom (db e))"
proof -
  obtain c' where s: "sync_cache e (columns_cache h) = Inr c'"
    using wf sync_cache_ok by (auto simp: engine_wf_def)
  obtain e1 c1 r1 where f: "fill_row e c' (replicate (max (length (cm_names (columns_cache h))) (length vals)) None) vals = (e1, c1, r1)"
    by (rule prod_cases3)
  have "wf_mapping (columns e1) \<and> n_columns e1 = n_columns e \<and> db e1 = db e"
    using fill_row_frame [OF _ f] wf by (simp add: engine_wf_def)
  with wf s f show ?thesis by (simp add: db_insert_def convert_to_row_def engine_wf_def)
qed

text \<open>
  C9: on an engine whose registry is well formed (and whose \<open>COLUMN_MAPPING_LEN\<close>
  is 0, which it stays), \<open>insert\<close> never panics, through any handle, and keeps
  the registry well formed: the index lookups of the cache refresh are always in
  range.
\<close>

theorem db_insert_total:
  "engine_wf e \<Longrightarrow> \<exists>e' h'. db_insert e h k vals = Inr (e', h') \<and> engine_wf e'"
  using db_insert_ok by blast

subsection \<open>Rows read through the registry\<close>

lemma length_row_put: "length (row_put r i v) = max (length r) (Suc i)"
  by (simp add: row_put_def Let_def)

lemma nth_row_put_same: "row_put r i v ! i = Some v"
  by (simp add: row_put_def Let_def)

lemma nth_row_put_other:
  "j \<noteq> i \<Longrightarrow> j < length (row_put r i v) \<Longrightarrow>
   row_put r i v ! j = (if j < length r then r ! j else None)"
  by (auto simp: row_put_def Let_def nth_append)

lemma abs_row_put:
  assumes wf: "wf_mapping x" and i: "map_of (cm_index x) nm = Some i"
  shows "abs_row x (row_put r i v) = (abs_row x r)(nm \<mapsto> v)"
proof
  fix nm'
  show "abs_row x (row_put r i v) nm' = ((abs_row x r)(nm \<mapsto> v)) nm'"
  proof (cases "nm' = nm")
    case True
    with i show ?thesis by (simp add: abs_row_def length_row_put nth_row_put_same)
  next
    case False
    show ?thesis
    proof (cases "map_of (cm_index x) nm'")
      case None
      with False show ?thesis by (simp add: abs_row_def)
    next
      case (Some j)
      have "cm_names x ! j = nm'" "cm_names x ! i = nm"
        using wf_lookup [OF wf Some] wf_lookup [OF wf i] by simp_all
      with False have "j \<noteq> i" by auto
      with Some False show ?thesis
        by (auto simp: abs_row_def length_row_put nth_row_put_other)
    qed
  qed
qed

lemma tail_none_put:
  "tail_none x r \<Longrightarrow> i < length (cm_names x) \<Longrightarrow> tail_none x (row_put r i v)"
proof -
  assume t: "tail_none x r" and i: "i < length (cm_names x)"
  show ?thesis unfolding tail_none_def
  proof (intro allI impI)
    fix j assume j: "j < length (row_put r i v)" "length (cm_names x) \<le> j"
    then have "j \<noteq> i" using i by simp
    then show "row_put r i v ! j = None"
      using t j by (simp add: nth_row_put_other tail_none_def)
  qed
qed

lemma tail_none_replicate: "tail_none x (replicate n None)"
  by (simp add: tail_none_def)

lemma abs_row_replicate: "abs_row x (replicate n None) = Map.empty"
  by (simp add: abs_row_def fun_eq_iff split: option.split)

lemma push_fresh_frame:
  assumes fresh: "map_of (cm_index x) nm = None" and t: "tail_none x r"
  shows "abs_row (cm_push nm (length (cm_names x)) x) r = abs_row x r \<and>
         tail_none (cm_push nm (length (cm_names x)) x) r"
proof
  show "tail_none (cm_push nm (length (cm_names x)) x) r"
    using t by (simp add: tail_none_def cm_push_def)
  show "abs_row (cm_push nm (length (cm_names x)) x) r = abs_row x r"
  proof
    fix nm'
    show "abs_row (cm_push nm (length (cm_names x)) x) r nm' = abs_row x r nm'"
      using fresh t by (cases "nm' = nm") (auto simp: abs_row_def cm_push_def update_conv' tail_none_def)
  qed
qed

subsection \<open>A handle in sync with the registry refines replace-the-row\<close>

lemma map_add_snoc: "m ++ map_of (vs @ [(k, v)]) = m(k \<mapsto> v) ++ map_of vs"
  by (simp add: map_of_append map_add_upd_left fun_eq_iff map_add_def split: option.split)

lemma rev_swap_order_Cons: "rev (swap_order (p # vs)) = vs @ [p]"
  by simp

lemma wf_fresh_not_name:
  "wf_mapping x \<Longrightarrow> map_of (cm_index x) nm = None \<Longrightarrow> nm \<notin> set (cm_names x)"
  unfolding wf_mapping_def by (auto simp: map_of_eq_None_iff)

lemma fill_row_sync:
  "wf_mapping (columns e) \<Longrightarrow> c = columns e \<Longrightarrow> tail_none (columns e) r \<Longrightarrow>
   fill_row e c r vs = (e', c', r') \<Longrightarrow>
   c' = columns e' \<and> tail_none (columns e') r' \<and>
   abs_row (columns e') r' = abs_row (columns e) r ++ map_of (rev (swap_order vs)) \<and>
   (\<forall>r0. tail_none (columns e) r0 \<longrightarrow>
          tail_none (columns e') r0 \<and> abs_row (columns e') r0 = abs_row (columns e) r0) \<and>
   (distinct (cm_names (columns e)) \<longrightarrow> distinct (cm_names (columns e')))"
proof (induction e c r vs arbitrary: e' c' r' rule: fill_row.induct)
  case (1 e c row)
  then show ?case by auto
next
  case (2 e c row nm v vs)
  note wf = "2.prems"(1) and ce = "2.prems"(2) and t = "2.prems"(3)
  have tgt: "abs_row (columns e) row ++ map_of (rev (swap_order ((nm, v) # vs))) =
             (abs_row (columns e) row)(nm \<mapsto> v) ++ map_of vs"
    by (simp only: rev_swap_order_Cons map_add_snoc)
  have rest: "rev (swap_order (swap_rest vs)) = vs" by (simp add: swap_order_swap_rest)
  show ?case
  proof (cases "map_of (cm_index c) nm")
    case None
    let ?n = "length (cm_names (columns e))"
    define e1 where "e1 = e\<lparr>columns := cm_push nm ?n (columns e), n_columns := n_columns e + 0\<rparr>"
    define c1 where "c1 = cm_push nm ?n c"
    have fresh: "map_of (cm_index (columns e)) nm = None" using None ce by simp
    have eq: "fill_row e c row ((nm, v) # vs) = fill_row e1 c1 (row_put row ?n v) (swap_rest vs)"
      using None by (simp add: e1_def c1_def Let_def)
    have f1: "fill_row e1 c1 (row_put row ?n v) (swap_rest vs) = (e', c', r')"
      using "2.prems"(4) unfolding eq .
    have wf1: "wf_mapping (columns e1)" using wf by (simp add: e1_def wf_cm_push)
    have c1e: "c1 = columns e1" using ce by (simp add: c1_def e1_def)
    have pf: "\<And>r0. tail_none (columns e) r0 \<Longrightarrow>
               abs_row (columns e1) r0 = abs_row (columns e) r0 \<and> tail_none (columns e1) r0"
      using push_fresh_frame [OF fresh] by (simp add: e1_def)
    have t1: "tail_none (columns e1) (row_put row ?n v)"
      using pf [OF t] by (intro tail_none_put) (simp_all add: e1_def cm_push_def)
    have look: "map_of (cm_index (columns e1)) nm = Some ?n"
      by (simp add: e1_def cm_push_def update_conv')
    have a1: "abs_row (columns e1) (row_put row ?n v) = (abs_row (columns e) row)(nm \<mapsto> v)"
      using abs_row_put [OF wf1 look] pf [OF t] by simp
    have d1: "distinct (cm_names (columns e)) \<Longrightarrow> distinct (cm_names (columns e1))"
      using wf_fresh_not_name [OF wf fresh] by (simp add: e1_def cm_push_def)
    note IH = "2.IH"(1) [OF None refl e1_def c1_def wf1 c1e t1 f1]
    show ?thesis using IH pf d1 by (simp add: tgt rest a1, simp add: fun_upd_def)
  next
    case (Some idx)
    have eq: "fill_row e c row ((nm, v) # vs) = fill_row e c (row_put row idx v) (swap_rest vs)"
      using Some by simp
    have f1: "fill_row e c (row_put row idx v) (swap_rest vs) = (e', c', r')"
      using "2.prems"(4) unfolding eq .
    have look: "map_of (cm_index (columns e)) nm = Some idx" using Some ce by simp
    have t1: "tail_none (columns e) (row_put row idx v)"
      using wf_lookup [OF wf look] t by (intro tail_none_put) simp_all
    have a1: "abs_row (columns e) (row_put row idx v) = (abs_row (columns e) row)(nm \<mapsto> v)"
      by (rule abs_row_put [OF wf look])
    note IH = "2.IH"(2) [OF Some wf ce t1 f1]
    show ?thesis using IH by (simp add: tgt rest a1, simp add: fun_upd_def)
  qed
qed

lemma sync_cache_in_sync:
  "wf_mapping (columns e) \<Longrightarrow> sync_cache e (columns e) = Inr (columns e)"
  using wf_length_index [of "columns e"] by (simp add: sync_cache_def)

lemma map_of_rev_swap_order:
  "distinct (map fst vs) \<Longrightarrow> map_of (rev (swap_order vs)) = map_of vs"
proof (cases vs)
  case Nil
  then show ?thesis by simp
next
  case (Cons p ws)
  assume d: "distinct (map fst vs)"
  have "set (rev (swap_order vs)) = set vs" using Cons by auto
  moreover have "distinct (map fst (rev (swap_order vs)))" using d Cons by (auto simp: rev_map [symmetric])
  ultimately show ?thesis using d by (metis map_of_inject_set)
qed

lemma db_insert_sync:
  assumes wf: "engine_wf e" and rows: "rows_ok e" and sync: "columns_cache h = columns e"
  shows "\<exists>e' h'. db_insert e h k vals = Inr (e', h') \<and>
           abs_db e' = (abs_db e)(k \<mapsto> map_of (rev (swap_order vals))) \<and>
           columns_cache h' = columns e' \<and> engine_wf e' \<and> rows_ok e' \<and>
           (distinct (cm_names (columns e)) \<longrightarrow> distinct (cm_names (columns e')))"
proof -
  have wfm: "wf_mapping (columns e)" using wf by (simp add: engine_wf_def)
  let ?r0 = "replicate (max (length (cm_names (columns e))) (length vals)) None"
  obtain e1 c1 r1 where f: "fill_row e (columns e) ?r0 vals = (e1, c1, r1)"
    by (rule prod_cases3)
  have fs: "c1 = columns e1 \<and> tail_none (columns e1) r1 \<and>
      abs_row (columns e1) r1 = abs_row (columns e) ?r0 ++ map_of (rev (swap_order vals)) \<and>
      (\<forall>r0. tail_none (columns e) r0 \<longrightarrow>
          tail_none (columns e1) r0 \<and> abs_row (columns e1) r0 = abs_row (columns e) r0) \<and>
      (distinct (cm_names (columns e)) \<longrightarrow> distinct (cm_names (columns e1)))"
    by (rule fill_row_sync [OF wfm refl tail_none_replicate f])
  have fr: "wf_mapping (columns e1) \<and> n_columns e1 = n_columns e \<and> db e1 = db e"
    by (rule fill_row_frame [OF wfm f])
  define e2 where "e2 = e1\<lparr>db := (db e1)(k \<mapsto> r1)\<rparr>"
  have ins: "db_insert e h k vals = Inr (e2, h\<lparr>columns_cache := c1\<rparr>)"
    using sync f by (simp add: db_insert_def convert_to_row_def sync_cache_in_sync [OF wfm] e2_def)
  have old: "\<And>k' r. db e k' = Some r \<Longrightarrow>
       tail_none (columns e1) r \<and> abs_row (columns e1) r = abs_row (columns e) r"
    using rows fs by (auto simp: rows_ok_def ran_def)
  have "abs_db e2 = (abs_db e)(k \<mapsto> map_of (rev (swap_order vals)))"
  proof
    fix k'
    show "abs_db e2 k' = ((abs_db e)(k \<mapsto> map_of (rev (swap_order vals)))) k'"
      using fs fr old [of k'] by (cases "db e k'") (auto simp: abs_db_def e2_def abs_row_replicate)
  qed
  moreover have "rows_ok e2"
    using fs fr old by (auto simp: rows_ok_def e2_def ran_def)
  moreover have "engine_wf e2" using fr wf by (simp add: engine_wf_def e2_def)
  ultimately show ?thesis using ins fs by (auto simp: e2_def)
qed

text \<open>
  C8: for a handle whose cache equals the shared registry (the case of a single
  handle), \<open>insert(key, values)\<close> refines the abstract operation "replace the row
  of \<open>key\<close> by the fields given": read through the registry, the table afterwards
  is the old one with \<open>key\<close> mapped to the given fields (when a name repeats, the
  value processed last in \<open>swap_remove\<close> order).  The handle stays in sync,
  the invariants are kept and the registry's names stay distinct.
\<close>

theorem db_insert_refines:
  assumes wf: "engine_wf e" and rows: "rows_ok e" and sync: "columns_cache h = columns e"
  shows "\<exists>e' h'. db_insert e h k vals = Inr (e', h') \<and>
           abs_db e' = (abs_db e)(k \<mapsto> map_of (rev (swap_order vals))) \<and>
           columns_cache h' = columns e' \<and> engine_wf e' \<and> rows_ok e' \<and>
           (distinct (cm_names (columns e)) \<longrightarrow> distinct (cm_names (columns e')))"
  by (rule db_insert_sync [OF wf rows sync])

subsection \<open>Handles out of sync: duplicate columns\<close>

lemma fill_row_fresh_order:
  "wf_mapping (columns e) \<Longrightarrow> distinct (map fst vs) \<Longrightarrow>
   (\<forall>nm \<in> set (map fst vs). map_of (cm_index c) nm = None) \<Longrightarrow>
   fill_row e c r vs = (e', c', r') \<Longrightarrow>
   cm_names (columns e') = cm_names (columns e) @ map fst (swap_order vs)"
proof (induction e c r vs arbitrary: e' c' r' rule: fill_row.induct)
  case (1 e c row)
  then show ?case by simp
next
  case (2 e c row nm v vs)
  have None: "map_of (cm_index c) nm = None" using "2.prems"(3) by simp
  let ?n = "length (cm_names (columns e))"
  define e1 where "e1 = e\<lparr>columns := cm_push nm ?n (columns e), n_columns := n_columns e + 0\<rparr>"
  define c1 where "c1 = cm_push nm ?n c"
  have eq: "fill_row e c row ((nm, v) # vs) = fill_row e1 c1 (row_put row ?n v) (swap_rest vs)"
    using None by (simp add: e1_def c1_def Let_def)
  have f1: "fill_row e1 c1 (row_put row ?n v) (swap_rest vs) = (e', c', r')"
    using "2.prems"(4) unfolding eq .
  have wf1: "wf_mapping (columns e1)" using "2.prems"(1) by (simp add: e1_def wf_cm_push)
  have d1: "distinct (map fst (swap_rest vs))"
    using "2.prems"(2) by (simp add: distinct_map_swap_rest)
  have fr1: "\<forall>nm' \<in> set (map fst (swap_rest vs)). map_of (cm_index c1) nm' = None"
    using "2.prems"(2,3) by (auto simp: c1_def cm_push_def update_conv' set_swap_rest)
  have "cm_names (columns e') = cm_names (columns e1) @ map fst (swap_order (swap_rest vs))"
    by (rule "2.IH"(1) [OF None refl e1_def c1_def wf1 d1 fr1 f1])
  then show ?case by (simp add: e1_def cm_push_def swap_order_swap_rest rev_map)
qed

lemma push_hides:
  assumes t: "tail_none x r"
  shows "abs_row (cm_push nm (length (cm_names x)) x) r = (abs_row x r)(nm := None) \<and>
         tail_none (cm_push nm (length (cm_names x)) x) r"
proof
  show "tail_none (cm_push nm (length (cm_names x)) x) r"
    using t by (simp add: tail_none_def cm_push_def)
  show "abs_row (cm_push nm (length (cm_names x)) x) r = (abs_row x r)(nm := None)"
  proof
    fix nm'
    show "abs_row (cm_push nm (length (cm_names x)) x) r nm' = ((abs_row x r)(nm := None)) nm'"
      using t by (cases "nm' = nm") (auto simp: abs_row_def cm_push_def update_conv' tail_none_def)
  qed
qed

lemma restrict_upd_None: "(m(k := None)) |` (- A) = m |` (- insert k A)"
  by (auto simp: restrict_map_def fun_eq_iff)

lemma fill_row_fresh_hides:
  "distinct (map fst vs) \<Longrightarrow> (\<forall>nm \<in> set (map fst vs). map_of (cm_index c) nm = None) \<Longrightarrow>
   tail_none (columns e) r0 \<Longrightarrow> fill_row e c r vs = (e', c', r') \<Longrightarrow>
   tail_none (columns e') r0 \<and> abs_row (columns e') r0 = abs_row (columns e) r0 |` (- fst ` set vs)"
proof (induction e c r vs arbitrary: e' c' r' rule: fill_row.induct)
  case (1 e c row)
  then show ?case by simp
next
  case (2 e c row nm v vs)
  have None: "map_of (cm_index c) nm = None" using "2.prems"(2) by simp
  let ?n = "length (cm_names (columns e))"
  define e1 where "e1 = e\<lparr>columns := cm_push nm ?n (columns e), n_columns := n_columns e + 0\<rparr>"
  define c1 where "c1 = cm_push nm ?n c"
  have eq: "fill_row e c row ((nm, v) # vs) = fill_row e1 c1 (row_put row ?n v) (swap_rest vs)"
    using None by (simp add: e1_def c1_def Let_def)
  have f1: "fill_row e1 c1 (row_put row ?n v) (swap_rest vs) = (e', c', r')"
    using "2.prems"(4) unfolding eq .
  have d1: "distinct (map fst (swap_rest vs))"
    using "2.prems"(1) by (simp add: distinct_map_swap_rest)
  have fr1: "\<forall>nm' \<in> set (map fst (swap_rest vs)). map_of (cm_index c1) nm' = None"
    using "2.prems"(1,2) by (auto simp: c1_def cm_push_def update_conv' set_swap_rest)
  have p: "abs_row (columns e1) r0 = (abs_row (columns e) r0)(nm := None)" "tail_none (columns e1) r0"
    using push_hides [OF "2.prems"(3), of nm] by (simp_all add: e1_def)
  have ih: "tail_none (columns e') r0 \<and> abs_row (columns e') r0 = abs_row (columns e1) r0 |` (- fst ` set (swap_rest vs))"
    by (rule "2.IH"(1) [OF None refl e1_def c1_def d1 fr1 p(2) f1])
  have "abs_row (columns e') r0 = ((abs_row (columns e) r0)(nm := None)) |` (- fst ` set vs)"
    using ih p(1) by (simp only: set_swap_rest)
  also have "\<dots> = abs_row (columns e) r0 |` (- insert nm (fst ` set vs))" by (rule restrict_upd_None)
  finally show ?case using ih by simp
qed

text \<open>
  C10: a new handle (empty cache) never consults the shared registry on its first
  insert: every field name of that insert gets a fresh column index appended to
  the registry, even a name the registry already holds, and the indices are
  handed out in \<open>swap_remove\<close> order (first value, then the others from the last).
\<close>

theorem fresh_handle_reallocates:
  assumes wf: "engine_wf e" and d: "distinct (map fst vals)"
  shows "\<exists>e' h'. db_insert e handle_new k vals = Inr (e', h') \<and>
           cm_names (columns e') = cm_names (columns e) @ map fst (swap_order vals)"
proof -
  have wfm: "wf_mapping (columns e)" and n0: "n_columns e = 0" using wf by (simp_all add: engine_wf_def)
  let ?r0 = "replicate (length vals) None"
  obtain e1 c1 r1 where f: "fill_row e empty_mapping ?r0 vals = (e1, c1, r1)"
    by (rule prod_cases3)
  have "cm_names (columns e1) = cm_names (columns e) @ map fst (swap_order vals)"
    by (rule fill_row_fresh_order [OF wfm d _ f]) (simp add: empty_mapping_def)
  moreover have "sync_cache e empty_mapping = Inr empty_mapping"
    using n0 by (simp add: sync_cache_def empty_mapping_def)
  ultimately show ?thesis
    using f by (simp add: db_insert_def convert_to_row_def handle_new_def empty_mapping_def)
qed

lemma db_insert_total_witness:
  "engine_wf engine_init \<and>
   (\<exists>e' h'. db_insert engine_init handle_new ''user1'' [(''field0'', [7])] = Inr (e', h') \<and> engine_wf e')"
proof -
  have h: "engine_wf engine_init" by (simp add: engine_wf_def engine_init_def wf_empty_mapping)
  show ?thesis using h db_insert_total [OF h] by simp
qed

lemma db_insert_refines_witness:
  "engine_wf engine_init \<and> rows_ok engine_init \<and> columns_cache handle_new = columns engine_init \<and>
   (\<exists>e' h'. db_insert engine_init handle_new ''user1'' [(''field0'', [7])] = Inr (e', h') \<and>
      abs_db e' = (abs_db engine_init)(''user1'' \<mapsto> map_of (rev (swap_order [(''field0'', [7])]))) \<and>
      columns_cache h' = columns e' \<and> engine_wf e' \<and> rows_ok e' \<and>
      (distinct (cm_names (columns engine_init)) \<longrightarrow> distinct (cm_names (columns e'))))"
proof -
  have h: "engine_wf engine_init" "rows_ok engine_init" "columns_cache handle_new = columns engine_init"
    by (simp_all add: engine_wf_def engine_init_def wf_empty_mapping rows_ok_def handle_new_def)
  show ?thesis
    using h db_insert_refines [where k = "''user1''" and vals = "[(''field0'', [7])]", OF h]
    by (simp only: simp_thms)
qed

lemma fresh_handle_reallocates_witness:
  "engine_wf engine_init \<and> distinct (map fst [(''a'', [1::u8]), (''b'', [2]), (''c'', [3])]) \<and>
   (\<exists>e' h'. db_insert engine_init handle_new ''k'' [(''a'', [1]), (''b'', [2]), (''c'', [3])] = Inr (e', h') \<and>
      cm_names (columns e') = cm_names (columns engine_init) @ [''a'', ''c'', ''b''])"
proof -
  have h: "engine_wf engine_init" by (simp add: engine_wf_def engine_init_def wf_empty_mapping)
  have d: "distinct (map fst [(''a'', [1::u8]), (''b'', [2]), (''c'', [3])])" by simp
  show ?thesis using h d fresh_handle_reallocates [OF h d] by simp
qed

text \<open>
  C11: the first insert through a new handle hides, in every other row of the
  table, the fields it writes: read through the shared registry, each such
  row keeps its other fields and loses those names, whose registry entries
  now point at the fresh columns the new handle appended.  So when a second
  worker starts loading, the rows of the first worker lose all their fields.
\<close>

theorem fresh_handle_hides_fields:
  assumes wf: "engine_wf e" and rows: "rows_ok e" and d: "distinct (map fst vals)"
    and k: "k' \<noteq> k" and r: "db e k' = Some r"
  shows "\<exists>e' h'. db_insert e handle_new k vals = Inr (e', h') \<and>
           abs_db e' k' = Some (abs_row (columns e) r |` (- fst ` set vals))"
proof -
  have wfm: "wf_mapping (columns e)" and n0: "n_columns e = 0" using wf by (simp_all add: engine_wf_def)
  have t: "tail_none (columns e) r" using rows r by (auto simp: rows_ok_def ran_def)
  let ?r0 = "replicate (length vals) None"
  obtain e1 c1 r1 where f: "fill_row e empty_mapping ?r0 vals = (e1, c1, r1)"
    by (rule prod_cases3)
  have h: "abs_row (columns e1) r = abs_row (columns e) r |` (- fst ` set vals)"
    using fill_row_fresh_hides [OF d _ t f] by (simp add: empty_mapping_def)
  have db1: "db e1 = db e" using fill_row_frame [OF wfm f] by simp
  have "sync_cache e empty_mapping = Inr empty_mapping"
    using n0 by (simp add: sync_cache_def empty_mapping_def)
  then show ?thesis
    using f h db1 k r by (simp add: db_insert_def convert_to_row_def handle_new_def empty_mapping_def abs_db_def)
qed

lemma fresh_handle_hides_fields_witness:
  "engine_wf (engine_init\<lparr>columns := cm_push ''f'' 0 empty_mapping, db := [''k1'' \<mapsto> [Some [1]]]\<rparr>) \<and>
   rows_ok (engine_init\<lparr>columns := cm_push ''f'' 0 empty_mapping, db := [''k1'' \<mapsto> [Some [1]]]\<rparr>) \<and>
   distinct (map fst [(''f'', [2::u8])]) \<and> ''k1'' \<noteq> ''k2'' \<and>
   db (engine_init\<lparr>columns := cm_push ''f'' 0 empty_mapping, db := [''k1'' \<mapsto> [Some [1]]]\<rparr>) ''k1'' = Some [Some [1]] \<and>
   (\<exists>e' h'. db_insert (engine_init\<lparr>columns := cm_push ''f'' 0 empty_mapping, db := [''k1'' \<mapsto> [Some [1]]]\<rparr>) handle_new ''k2'' [(''f'', [2])] = Inr (e', h') \<and>
      abs_db e' ''k1'' = Some (abs_row (columns (engine_init\<lparr>columns := cm_push ''f'' 0 empty_mapping, db := [''k1'' \<mapsto> [Some [1]]]\<rparr>)) [Some [1]] |` (- fst ` set [(''f'', [2::u8])])))"
proof -
  let ?e = "engine_init\<lparr>columns := cm_push ''f'' 0 empty_mapping, db := [''k1'' \<mapsto> [Some [1]]]\<rparr>"
  have w: "engine_wf ?e" by (simp add: engine_wf_def engine_init_def wf_mapping_def cm_push_def empty_mapping_def)
  have ro: "rows_ok ?e" by (simp add: rows_ok_def tail_none_def cm_push_def empty_mapping_def)
  have d: "distinct (map fst [(''f'', [2::u8])])" by simp
  have k: "''k1'' \<noteq> ''k2''" by simp
  have r: "db ?e ''k1'' = Some [Some [1]]" by simp
  show ?thesis using w ro d k r fresh_handle_hides_fields [OF w ro d k r] by blast
qed

subsection \<open>\<open>get_key_indices\<close> against its reference\<close>

lemma lookup_cm_push:
  "map_of (cm_index (cm_push nm i x)) k = (if k = nm then Some i else map_of (cm_index x) k)"
  by (simp add: cm_push_def update_conv')

lemma names_cm_push: "cm_names (cm_push nm i x) = cm_names x @ [nm]"
  by (simp add: cm_push_def)

lemma gki_read_eq:
  "gki_read x vs (acc, m) =
     (acc @ map (\<lambda>p. case map_of (cm_index x) (fst p) of Some i \<Rightarrow> int i | None \<Rightarrow> -1) vs,
      fold max (List.map_filter (\<lambda>p. map_of (cm_index x) (fst p)) vs) m)"
  by (induction x vs "(acc, m)" arbitrary: acc m rule: gki_read.induct)
     (simp_all add: map_filter_simps max.commute split: option.split)

text \<open>What a step of the reference keeps: a well-formed registry whose slots bound the indices.\<close>

lemma key_index_step_inv:
  assumes "wf_mapping (fst st)" "\<forall>i \<in> set (snd st). 0 \<le> i \<and> nat i < length (cm_names (fst st))"
  shows "wf_mapping (fst (key_index_step st p)) \<and>
    (\<forall>i \<in> set (snd (key_index_step st p)). 0 \<le> i \<and> nat i < length (cm_names (fst (key_index_step st p)))) \<and>
    length (cm_names (fst st)) \<le> length (cm_names (fst (key_index_step st p))) \<and>
    (\<forall>k j. map_of (cm_index (fst st)) k = Some j \<longrightarrow> map_of (cm_index (fst (key_index_step st p))) k = Some j) \<and>
    (\<forall>k. k \<noteq> fst p \<longrightarrow> map_of (cm_index (fst (key_index_step st p))) k = map_of (cm_index (fst st)) k) \<and>
    length (snd (key_index_step st p)) = Suc (length (snd st))"
proof (cases "map_of (cm_index (fst st)) (fst p)")
  case None
  have "\<forall>k j. map_of (cm_index (fst st)) k = Some j \<longrightarrow> k \<noteq> fst p" using None by auto
  then show ?thesis using None assms wf_cm_push [OF assms(1), of "fst p"]
    by (auto simp: key_index_step_def lookup_cm_push names_cm_push)
next
  case (Some i)
  then show ?thesis using assms wf_lookup [OF assms(1) Some] by (auto simp: key_index_step_def)
qed

lemma foldl_key_index_inv:
  assumes "wf_mapping (fst st)" "\<forall>i \<in> set (snd st). 0 \<le> i \<and> nat i < length (cm_names (fst st))"
  shows "wf_mapping (fst (foldl key_index_step st vs)) \<and>
    (\<forall>i \<in> set (snd (foldl key_index_step st vs)). 0 \<le> i \<and> nat i < length (cm_names (fst (foldl key_index_step st vs)))) \<and>
    length (cm_names (fst st)) \<le> length (cm_names (fst (foldl key_index_step st vs))) \<and>
    (\<forall>k j. map_of (cm_index (fst st)) k = Some j \<longrightarrow> map_of (cm_index (fst (foldl key_index_step st vs))) k = Some j) \<and>
    (\<forall>k. k \<notin> fst ` set vs \<longrightarrow> map_of (cm_index (fst (foldl key_index_step st vs))) k = map_of (cm_index (fst st)) k) \<and>
    length (snd (foldl key_index_step st vs)) = length (snd st) + length vs"
  using assms
proof (induction vs arbitrary: st)
  case Nil
  then show ?case by simp
next
  case (Cons p vs)
  note s = key_index_step_inv [OF Cons.prems, of p]
  have "wf_mapping (fst (key_index_step st p))"
    "\<forall>i \<in> set (snd (key_index_step st p)). 0 \<le> i \<and> nat i < length (cm_names (fst (key_index_step st p)))"
    using s by blast+
  note ih = Cons.IH [OF this]
  show ?case using ih s by (simp only: foldl_Cons) (auto dest: le_trans)
qed

lemma gki_write_ref:
  assumes wf: "wf_mapping x" and d: "distinct (map fst vals)" and j: "j \<le> length vals"
  shows "gki_write vals [j..<length vals]
      (fst (foldl key_index_step (x, []) (take j vals)),
       snd (foldl key_index_step (x, []) (take j vals)) @
         drop j (map (\<lambda>p. case map_of (cm_index x) (fst p) of Some i \<Rightarrow> int i | None \<Rightarrow> -1) vals),
       Max (set (0 # map nat (snd (foldl key_index_step (x, []) (take j vals))) @
         List.map_filter (\<lambda>p. map_of (cm_index x) (fst p)) (drop j vals)))) =
     (fst (foldl key_index_step (x, []) vals), snd (foldl key_index_step (x, []) vals),
      Max (set (0 # map nat (snd (foldl key_index_step (x, []) vals)))))"
  using j
proof (induction "length vals - j" arbitrary: j)
  case 0
  then show ?case by (simp add: map_filter_simps)
next
  case (Suc k)
  let ?L = "map (\<lambda>p. case map_of (cm_index x) (fst p) of Some i \<Rightarrow> int i | None \<Rightarrow> -1) vals"
  let ?FD = "\<lambda>p. map_of (cm_index x) (fst p)"
  define F where "F = foldl key_index_step (x, []) (take j vals)"
  have jl: "j < length vals" using Suc by simp
  have inv: "wf_mapping (fst F)" "\<forall>i \<in> set (snd F). 0 \<le> i \<and> nat i < length (cm_names (fst F))"
      "length (cm_names x) \<le> length (cm_names (fst F))"
      "\<forall>k. k \<notin> fst ` set (take j vals) \<longrightarrow> map_of (cm_index (fst F)) k = map_of (cm_index x) k"
      "length (snd F) = j"
    using foldl_key_index_inv [of "(x, [])" "take j vals"] wf jl by (simp_all add: F_def)
  have F': "foldl key_index_step (x, []) (take (Suc j) vals) = key_index_step F (vals ! j)"
    using jl by (simp add: F_def take_Suc_conv_app_nth)
  have up: "[j..<length vals] = j # [Suc j..<length vals]" using jl by (simp add: upt_conv_Cons)
  have dr: "drop j vals = vals ! j # drop (Suc j) vals" using jl by (simp add: Cons_nth_drop_Suc)
  have dL: "drop j ?L = ?L ! j # drop (Suc j) ?L" using dr jl by (simp add: drop_map)
  have lk: "map_of (cm_index (fst F)) (fst (vals ! j)) = map_of (cm_index x) (fst (vals ! j))"
    using inv(4) distinct_nth_not_in_take [OF d jl] by blast
  have ih: "gki_write vals [Suc j..<length vals]
      (fst (key_index_step F (vals ! j)), snd (key_index_step F (vals ! j)) @ drop (Suc j) ?L,
       Max (set (0 # map nat (snd (key_index_step F (vals ! j))) @ List.map_filter ?FD (drop (Suc j) vals)))) =
     (fst (foldl key_index_step (x, []) vals), snd (foldl key_index_step (x, []) vals),
      Max (set (0 # map nat (snd (foldl key_index_step (x, []) vals)))))"
    using Suc.hyps(1) [of "Suc j"] Suc.hyps(2) jl F' by simp
  show ?case
  proof (cases "map_of (cm_index x) (fst (vals ! j))")
    case None
    let ?n = "length (cm_names (fst F))"
    have st: "key_index_step F (vals ! j) = (cm_push (fst (vals ! j)) ?n (fst F), snd F @ [int ?n])"
      using lk None by (simp add: key_index_step_def)
    have lu: "(snd F @ drop j ?L)[j := int ?n] = (snd F @ [int ?n]) @ drop (Suc j) ?L"
      using inv(5) dL by (simp add: list_update_append)
    have m: "Max (set (0 # map nat (snd F @ [int ?n]) @ List.map_filter ?FD (drop (Suc j) vals))) = ?n"
    proof (rule Max_eqI)
      fix y assume "y \<in> set (0 # map nat (snd F @ [int ?n]) @ List.map_filter ?FD (drop (Suc j) vals))"
      then show "y \<le> ?n" using inv(2,3) wf_lookup [OF wf] by (fastforce simp: set_map_filter_eq dest: in_set_dropD)
    qed simp_all
    have "?L ! j = -1" using None jl by simp
    then show ?thesis using ih st lu m inv(5) dL by (simp add: up F_def [symmetric] nth_append)
  next
    case (Some i)
    have st: "key_index_step F (vals ! j) = (fst F, snd F @ [int i])"
      using lk Some by (simp add: key_index_step_def)
    have "?L ! j = int i" using Some jl by simp
    then show ?thesis using ih st inv(5) dL dr Some by (simp add: up F_def [symmetric] nth_append map_filter_simps)
  qed
qed

text \<open>
  C37: on a well-formed registry and values with distinct field names,
  \<open>get_key_indices\<close>, with its read-locked lookup pass and its
  write-locked allocation pass, computes the same registry, the same index
  per value and the same column count as the reference that looks up or
  allocates one value at a time.
\<close>

theorem get_key_indices_equiv:
  assumes wf: "wf_mapping x" and d: "distinct (map fst vals)"
  shows "get_key_indices x vals = key_indices_ref x vals"
proof -
  have m: "fold max (List.map_filter (\<lambda>p. map_of (cm_index x) (fst p)) vals) 0 =
           Max (set (0 # List.map_filter (\<lambda>p. map_of (cm_index x) (fst p)) vals))"
    by (rule Max.set_eq_fold [symmetric])
  show ?thesis using gki_write_ref [OF wf d, of 0] m
    by (simp add: get_key_indices_def key_indices_ref_def gki_read_eq split_def Let_def)
qed

lemma get_key_indices_equiv_witness:
  "wf_mapping empty_mapping \<and> distinct (map fst [(''field0'', [1::8 word]), (''field1'', [2])]) \<and>
   get_key_indices empty_mapping [(''field0'', [1]), (''field1'', [2])] =
     key_indices_ref empty_mapping [(''field0'', [1]), (''field1'', [2])]"
proof -
  have w: "wf_mapping empty_mapping" by (simp add: wf_mapping_def empty_mapping_def)
  have d: "distinct (map fst [(''field0'', [1::8 word]), (''field1'', [2])])" by simp
  show ?thesis using w d get_key_indices_equiv [OF w d] by blast
qed

text \<open>
  C38: with a field name repeated among the values and not yet registered,
  \<open>get_key_indices\<close> allocates it twice: both lookups of the read pass miss,
  so the write pass appends the name at two columns and the registry maps the
  name to the second, leaving the first column unreachable.
\<close>

theorem get_key_indices_duplicate_stale:
  assumes "map_of (cm_index x) nm = None"
  shows "map_of (cm_index (fst (get_key_indices x [(nm, v), (nm, w)]))) nm = Some (Suc (length (cm_names x))) \<and>
     cm_names (fst (get_key_indices x [(nm, v), (nm, w)])) = cm_names x @ [nm, nm]"
  using assms by (simp add: get_key_indices_def names_cm_push lookup_cm_push numeral_2_eq_2 upt_rec Let_def)

lemma get_key_indices_duplicate_stale_witness:
  "map_of (cm_index empty_mapping) ''field0'' = None \<and>
   map_of (cm_index (fst (get_key_indices empty_mapping [(''field0'', [1]), (''field0'', [2])]))) ''field0'' =
     Some (Suc (length (cm_names empty_mapping))) \<and>
   cm_names (fst (get_key_indices empty_mapping [(''field0'', [1]), (''field0'', [2])])) = cm_names empty_mapping @ [''field0'', ''field0'']"
proof -
  have n: "map_of (cm_index empty_mapping) ''field0'' = None" by (simp add: empty_mapping_def)
  show ?thesis using n get_key_indices_duplicate_stale [OF n, of "[1]" "[2]"] by blast
qed

end
