(* ===== verification/Workload.thy ===== *)
theory Workload
  imports Generators Client Storage
begin

text \<open>
  \<open>CoreWorkload\<close> of \<open>src/ycsb/src/workloads/core.rs\<close>, the one implementation
  of the \<open>Workload\<close> trait (\<open>workloads/mod.rs\<close>).  Its configuration
  \<open>Properties\<close> is a record with the defaults of the source; the workload holds
  the key sequence (a \<open>Counter\<close> shared by all workers through the
  \<open>Arc<CoreWorkload>\<close>), the insert order, the field-length generator and the
  field names.  Two library services enter as parameters: the 64-bit
  \<open>DefaultHasher\<close> (SipHash, applied to \<open>n\<close> when inserts are hashed) as a
  function \<open>hash\<close>, and \<open>thread_rng().fill_bytes\<close> as a byte stream \<open>rng\<close>
  read from a position.  \<open>(zero_padding as i32) - (keynum.len() as i32)\<close> is
  computed in 32-bit words, wrapping as a release build does.
\<close>

record core_props =
  table :: string
  field_count :: u32
  field_name_prefix :: string
  field_length :: u32
  field_length_min :: u32
  field_length_distribution :: string
  request_distribution :: string
  min_scan_length :: u32
  max_scan_length :: u32
  scan_length_distribution :: string
  insert_start :: u64
  insert_count :: "u64 option"
  zero_padding :: u32
  read_all_fields :: bool
  read_all_fields_by_name :: bool
  write_all_fields :: bool
  insert_order :: string
  insert_proportion :: real

text \<open>The \<open>serde(default = ..)\<close> values; \<open>insertcount\<close> has none and is absent.\<close>

definition default_core_props :: core_props where
  "default_core_props =
     \<lparr>table = ''usertable'', field_count = 10, field_name_prefix = ''field'', field_length = 100,
      field_length_min = 1, field_length_distribution = ''constant'',
      request_distribution = ''uniform'', min_scan_length = 1, max_scan_length = 1000,
      scan_length_distribution = ''uniform'', insert_start = 0, insert_count = None,
      zero_padding = 1, read_all_fields = True, read_all_fields_by_name = False,
      write_all_fields = False, insert_order = ''hashed'', insert_proportion = 0\<rparr>"

record core_workload =
  cw_client_props :: client_properties
  cw_props :: core_props
  key_sequence :: counter_gen
  ordered_inserts :: bool
  field_length_generator :: number_generator
  field_names :: "string list"

text \<open>
  \<open>CoreWorkload::new\<close>: field names \<open>prefix ++ i.to_string()\<close> for
  \<open>i in 0..field_count\<close>; an unknown \<open>fieldlengthdistribution\<close> panics.
\<close>

definition workload_new :: "core_props \<Rightarrow> client_properties \<Rightarrow> panic + core_workload" where
  "workload_new props client_props =
     (let key_sequence = counter_new (insert_start props);
          ordered = (insert_order props \<noteq> ''hashed'');
          names = map (\<lambda>i. field_name_prefix props @ dec_string i) [0..<unat (field_count props)]
      in if field_length_distribution props = ''constant''
         then Inr \<lparr>cw_client_props = client_props, cw_props = props, key_sequence = key_sequence,
                   ordered_inserts = ordered,
                   field_length_generator = GConstant (constant_new (ucast (field_length props))),
                   field_names = names\<rparr>
         else Inl InvalidFieldLengthDistribution)"

text \<open>\<open>build_key\<close>: hash unless ordered, print, left-pad with zeros, prefix \<open>user\<close>.\<close>

definition build_key :: "(u64 \<Rightarrow> u64) \<Rightarrow> core_workload \<Rightarrow> u64 \<Rightarrow> string" where
  "build_key hash w n =
     (let keynum = dec_string (unat (if \<not> ordered_inserts w then hash n else n));
          fill = (ucast (zero_padding (cw_props w)) :: 32 word) - word_of_nat (length keynum)
      in ''user'' @ replicate (nat (sint fill)) (CHR ''0'') @ keynum)"

text \<open>
  \<open>build_values\<close>: per field name, a length from the field-length generator and
  that many bytes of the random stream.
\<close>

fun build_values_loop :: "number_generator \<Rightarrow> (nat \<Rightarrow> u8) \<Rightarrow> string list \<Rightarrow> nat \<Rightarrow>
    value_list \<times> nat" where
  "build_values_loop g rng [] pos = ([], pos)"
| "build_values_loop g rng (nm # nms) pos =
     (let len = unat (fst (generator_next g 0));
          v = map (\<lambda>j. rng (pos + j)) [0..<len];
          (rest, pos') = build_values_loop g rng nms (pos + len)
      in ((nm, v) # rest, pos'))"

definition build_values :: "core_workload \<Rightarrow> (nat \<Rightarrow> u8) \<Rightarrow> nat \<Rightarrow> value_list \<times> nat" where
  "build_values w rng pos = build_values_loop (field_length_generator w) rng (field_names w) pos"

text \<open>
  The state one \<open>do_insert\<close> touches: the shared key counter and engine, the
  worker's database handle and its position in the random stream.
\<close>

record insert_state =
  keys :: counter_gen
  eng :: engine
  hdl :: handle
  rng_pos :: nat

text \<open>\<open>do_insert\<close>: next key number, key, values, \<open>db.insert\<close> (its \<open>Result\<close> ignored).\<close>

definition do_insert :: "(u64 \<Rightarrow> u64) \<Rightarrow> core_workload \<Rightarrow> (nat \<Rightarrow> u8) \<Rightarrow>
    insert_state \<Rightarrow> panic + insert_state" where
  "do_insert hash w rng s =
     (let (n, ks) = counter_next (keys s);
          key = build_key hash w n;
          (vals, pos') = build_values w rng (rng_pos s)
      in case db_insert (eng s) (hdl s) key vals of
           Inl err \<Rightarrow> Inl err
         | Inr (e', h') \<Rightarrow> Inr \<lparr>keys = ks, eng = e', hdl = h', rng_pos = pos'\<rparr>)"

text \<open>The digits of a key: the \<open>keynum\<close> block of \<open>build_key\<close>.\<close>

definition key_digits :: "(u64 \<Rightarrow> u64) \<Rightarrow> core_workload \<Rightarrow> u64 \<Rightarrow> string" where
  "key_digits hash w n = dec_string (unat (if \<not> ordered_inserts w then hash n else n))"

text \<open>
  The invariant a worker's insert state keeps: the engine's registry is
  well formed, its rows hold nothing past the registry, and the handle's cache
  agrees with the registry (the situation of a single handle).
\<close>

definition in_sync :: "insert_state \<Rightarrow> bool" where
  "in_sync s \<longleftrightarrow> engine_wf (eng s) \<and> rows_ok (eng s) \<and> columns_cache (hdl s) = columns (eng s)"

text \<open>The state a worker's load phase starts from: a fresh engine and handle.\<close>

definition load_state :: "core_workload \<Rightarrow> insert_state" where
  "load_state w = \<lparr>keys = key_sequence w, eng = engine_init, hdl = handle_new, rng_pos = 0\<rparr>"

subsection \<open>Key construction\<close>

lemma sint_fill:
  "sint ((a :: 32 word) - word_of_nat len) = signed_take_bit 31 (int (unat a) - int len)"
proof -
  have eq: "a - word_of_nat len = word_of_int (int (unat a) - int len)"
    by simp
  show ?thesis unfolding eq sint_sbintrunc' by simp
qed

lemma sint_fill_in_range:
  "int (unat (a :: 32 word)) - int len < 2 ^ 31 \<Longrightarrow> len \<le> 20 \<Longrightarrow>
   sint (a - word_of_nat len) = int (unat a) - int len"
proof -
  assume hi: "int (unat a) - int len < 2 ^ 31" and len: "len \<le> 20"
  have "- (2 ^ 31) \<le> int (unat a) - int len" using len by (simp del: of_nat_unat)
  with hi have "signed_take_bit 31 (int (unat a) - int len) = int (unat a) - int len"
    by (rule signed_take_bit_int_eq_self [rotated])
  then show ?thesis by (simp only: sint_fill)
qed

lemma sint_fill_small:
  "unat (a :: 32 word) < 2 ^ 31 \<Longrightarrow> len \<le> 20 \<Longrightarrow>
   nat (sint (a - word_of_nat len)) = unat a - len"
  by (subst sint_fill_in_range) (simp_all del: of_nat_unat)

lemma sint_fill_overflow:
  "unat (a :: 32 word) = 2 ^ 31 \<Longrightarrow> 1 \<le> len \<Longrightarrow> len \<le> 20 \<Longrightarrow>
   nat (sint (a - word_of_nat len)) = 2 ^ 31 - len"
  by (subst sint_fill_in_range) (simp_all del: of_nat_unat)

lemma length_key_digits: "length (key_digits hash w n) \<le> 20"
  by (simp add: key_digits_def length_dec_string_u64)

lemma length_key_digits_pos: "1 \<le> length (key_digits hash w n)"
  using dec_string_nonempty by (simp add: key_digits_def Suc_le_eq)

lemma build_key_digits:
  "build_key hash w n =
     ''user'' @ replicate (nat (sint ((ucast (zero_padding (cw_props w)) :: 32 word) -
                                   word_of_nat (length (key_digits hash w n))))) (CHR ''0'') @
     key_digits hash w n"
  by (simp add: build_key_def key_digits_def Let_def)

text \<open>
  C13: reading back the digits after the \<open>user\<close> prefix of a key (padding
  zeros included) gives the key number, the hashed one when inserts are hashed:
  \<open>build_key\<close> loses nothing of the number it prints.
\<close>

theorem build_key_roundtrip:
  "dec_value (drop 4 (build_key hash w n)) = unat (if ordered_inserts w then n else hash n)"
  by (simp add: build_key_digits dec_value_zeros key_digits_def dec_value_dec_string)

text \<open>
  C14: for a \<open>zeropadding\<close> below \<open>2^31\<close> a key is \<open>user\<close>, then
  \<open>zeropadding - digits\<close> zeros (none when the number is longer), then the
  decimal digits of the key number.
\<close>

theorem build_key_shape:
  "unat (zero_padding (cw_props w)) < 2 ^ 31 \<Longrightarrow>
   build_key hash w n =
     ''user'' @ replicate (unat (zero_padding (cw_props w)) - length (key_digits hash w n)) (CHR ''0'') @
     key_digits hash w n"
  using sint_fill_small [OF _ length_key_digits] by (simp add: build_key_digits)

text \<open>
  C15: with \<open>zeropadding = 2^31\<close> the cast \<open>zero_padding as i32\<close> is
  \<open>-2^31\<close> and subtracting the digit count wraps to a large positive fill:
  every key is \<open>2^31 + 4\<close> characters long, where a padding that large should
  leave keys unpadded.
\<close>

theorem build_key_padding_overflow:
  "unat (zero_padding (cw_props w)) = 2 ^ 31 \<Longrightarrow> length (build_key hash w n) = 2 ^ 31 + 4"
  using sint_fill_overflow [OF _ length_key_digits_pos length_key_digits] length_key_digits [of hash w n]
  by (simp add: build_key_digits)

text \<open>
  C35: every key, for every configuration (the wrapped padding included), is
  \<open>user\<close> followed by decimal digits only.
\<close>

theorem build_key_charset:
  "take 4 (build_key hash w n) = ''user'' \<and> list_all is_digit (drop 4 (build_key hash w n))"
proof -
  have z: "is_digit (CHR ''0'')" by (simp add: is_digit_def)
  show ?thesis using z all_digits_dec_string by (auto simp: build_key_digits key_digits_def list_all_iff set_replicate_conv_if)
qed

subsection \<open>\<open>new\<close>, \<open>build_values\<close> and \<open>do_insert\<close>\<close>

text \<open>
  C16: \<open>CoreWorkload::new\<close> panics on every \<open>fieldlengthdistribution\<close>
  other than \<open>constant\<close>.
\<close>

theorem workload_new_invalid:
  "field_length_distribution props \<noteq> ''constant'' \<Longrightarrow>
   workload_new props client_props = Inl InvalidFieldLengthDistribution"
  by (simp add: workload_new_def Let_def)

text \<open>
  C17: with the \<open>constant\<close> distribution, \<open>CoreWorkload::new\<close> builds the
  field names \<open>prefix0 .. prefix(n-1)\<close>, orders inserts unless the order is
  \<open>hashed\<close>, starts the key counter at \<open>insertstart\<close> and draws every field
  length from a constant generator of \<open>fieldlength\<close>.
\<close>

theorem workload_new_constant:
  "field_length_distribution props = ''constant'' \<Longrightarrow>
   \<exists>w. workload_new props client_props = Inr w \<and>
        field_names w = map (\<lambda>i. field_name_prefix props @ dec_string i) [0..<unat (field_count props)] \<and>
        ordered_inserts w = (insert_order props \<noteq> ''hashed'') \<and>
        key_sequence w = counter_new (insert_start props) \<and>
        field_length_generator w = GConstant (constant_new (ucast (field_length props)))"
  by (simp add: workload_new_def Let_def)

lemma distinct_prefixed_names:
  "distinct (map (\<lambda>i. p @ dec_string i) [0..<n])"
  by (auto simp: distinct_map inj_on_def dest: dec_string_inj)

lemma build_values_loop_names:
  "map fst (fst (build_values_loop g rng nms pos)) = nms"
  by (induction nms arbitrary: pos) (simp_all add: Let_def case_prod_unfold)

lemma build_values_loop_lengths:
  "map (length \<circ> snd) (fst (build_values_loop g rng nms pos)) =
   replicate (length nms) (unat (fst (generator_next g 0)))"
  by (induction nms arbitrary: pos) (simp_all add: Let_def case_prod_unfold)

text \<open>
  C18: with a constant field-length generator, \<open>build_values\<close> produces one
  value per field name, in the order of the field names, each exactly as long
  as the constant.
\<close>

theorem build_values_shape:
  "field_length_generator w = GConstant g \<Longrightarrow>
   map fst (fst (build_values w rng pos)) = field_names w \<and>
   map (length \<circ> snd) (fst (build_values w rng pos)) =
     replicate (length (field_names w)) (unat (const_value g))"
  by (simp add: build_values_def build_values_loop_names build_values_loop_lengths constant_next_def)

lemma do_insert_sync:
  assumes s: "in_sync s" and d: "distinct (field_names w)"
  shows "\<exists>s'. do_insert hash w rng s = Inr s' \<and> in_sync s' \<and>
           counter (keys s') = counter (keys s) + 1 \<and>
           abs_db (eng s') = (abs_db (eng s))(build_key hash w (counter (keys s)) \<mapsto>
                                               map_of (fst (build_values w rng (rng_pos s))))"
proof -
  obtain vals pos' where bv: "build_values w rng (rng_pos s) = (vals, pos')" by (rule prod.exhaust)
  have dv: "distinct (map fst vals)"
    using d bv build_values_loop_names [of "field_length_generator w" rng "field_names w" "rng_pos s"]
    by (simp add: build_values_def)
  have h: "engine_wf (eng s)" "rows_ok (eng s)" "columns_cache (hdl s) = columns (eng s)"
    using s by (simp_all add: in_sync_def)
  obtain e' h' where ins: "db_insert (eng s) (hdl s) (build_key hash w (counter (keys s))) vals = Inr (e', h')"
    and a: "abs_db e' = (abs_db (eng s))(build_key hash w (counter (keys s)) \<mapsto> map_of (rev (swap_order vals)))"
    and inv: "columns_cache h' = columns e'" "engine_wf e'" "rows_ok e'"
    using db_insert_sync [OF h, of "build_key hash w (counter (keys s))" vals] by blast
  show ?thesis
    using ins a inv bv map_of_rev_swap_order [OF dv]
    by (simp add: do_insert_def counter_next_def in_sync_def)
qed

text \<open>Through any handle, in sync or not, \<open>do_insert\<close> adds exactly its key to the table.\<close>

lemma do_insert_any_handle:
  "engine_wf (eng st) \<Longrightarrow>
   \<exists>st'. do_insert hash w rng st = Inr st' \<and> engine_wf (eng st') \<and>
     counter (keys st') = counter (keys st) + 1 \<and>
     dom (db (eng st')) = insert (build_key hash w (counter (keys st))) (dom (db (eng st)))"
proof -
  assume wf: "engine_wf (eng st)"
  obtain vals pos' where bv: "build_values w rng (rng_pos st) = (vals, pos')" by (rule prod.exhaust)
  obtain e' h' where ins: "db_insert (eng st) (hdl st) (build_key hash w (counter (keys st))) vals = Inr (e', h')"
    and wf': "engine_wf e'" and d: "dom (db e') = insert (build_key hash w (counter (keys st))) (dom (db (eng st)))"
    using db_insert_ok [OF wf] by blast
  show ?thesis using ins wf' d bv by (simp add: do_insert_def counter_next_def)
qed

lemma workload_new_fields:
  "workload_new props cp = Inr w \<Longrightarrow>
   key_sequence w = counter_new (insert_start props) \<and> ordered_inserts w = (insert_order props \<noteq> ''hashed'') \<and>
   field_names w = map (\<lambda>i. field_name_prefix props @ dec_string i) [0..<unat (field_count props)]"
  by (auto simp: workload_new_def Let_def split: if_splits)

lemma dec_value_build_key_ordered:
  "ordered_inserts w \<Longrightarrow> dec_value (drop 4 (build_key hash w n)) = unat n"
  by (simp add: build_key_digits dec_value_zeros key_digits_def dec_value_dec_string)

text \<open>
  C19: from a state whose handle is in sync with a well-formed engine,
  \<open>do_insert\<close> never panics, advances the key counter by one, keeps the state
  in sync, and maps the key built from the old counter to the values built
  from the random stream, as an update of the abstract table.
\<close>

theorem do_insert_effect:
  assumes s: "in_sync s" and d: "distinct (field_names w)"
  shows "\<exists>s'. do_insert hash w rng s = Inr s' \<and> in_sync s' \<and>
           counter (keys s') = counter (keys s) + 1 \<and>
           abs_db (eng s') = (abs_db (eng s))(build_key hash w (counter (keys s)) \<mapsto>
                                               map_of (fst (build_values w rng (rng_pos s))))"
  by (rule do_insert_sync [OF s d])

subsection \<open>The load loop over \<open>do_insert\<close>\<close>

lemma image_lessThan_Suc_shift:
  "(\<lambda>i. f (c + word_of_nat i :: u64)) ` {..<Suc n} =
   insert (f c) ((\<lambda>i. f (c + 1 + word_of_nat i)) ` {..<n})"
  by (simp add: lessThan_Suc_eq_insert_0 image_image add.assoc add.commute [of 1])

lemma do_insert_loop:
  "in_sync s \<Longrightarrow> distinct (field_names w) \<Longrightarrow>
   \<exists>s'. insert_loop (do_insert hash w rng) n (s, p) = Inr (s', p + word_of_nat n) \<and> in_sync s' \<and>
        counter (keys s') = counter (keys s) + word_of_nat n \<and>
        dom (abs_db (eng s')) =
          dom (abs_db (eng s)) \<union> (\<lambda>i. build_key hash w (counter (keys s) + word_of_nat i)) ` {..<n}"
proof (induction n arbitrary: s p)
  case 0
  then show ?case by simp
next
  case (Suc n)
  obtain s1 where s1: "do_insert hash w rng s = Inr s1" "in_sync s1"
      "counter (keys s1) = counter (keys s) + 1"
      "abs_db (eng s1) = (abs_db (eng s))(build_key hash w (counter (keys s)) \<mapsto>
                            map_of (fst (build_values w rng (rng_pos s))))"
    using do_insert_sync [OF Suc.prems, of hash rng] by blast
  obtain s' where s': "insert_loop (do_insert hash w rng) n (s1, p + 1) = Inr (s', p + 1 + word_of_nat n)"
      "in_sync s'" "counter (keys s') = counter (keys s1) + word_of_nat n"
      "dom (abs_db (eng s')) =
         dom (abs_db (eng s1)) \<union> (\<lambda>i. build_key hash w (counter (keys s1) + word_of_nat i)) ` {..<n}"
    using Suc.IH [OF s1(2) Suc.prems(2)] by blast
  have p: "p + word_of_nat (Suc n) = p + 1 + word_of_nat n"
    by (simp add: add.assoc add.commute [of 1])
  have c: "counter (keys s') = counter (keys s) + word_of_nat (Suc n)"
    using s'(3) s1(3) by (simp add: add.assoc add.commute [of 1])
  have d: "dom (abs_db (eng s')) =
     dom (abs_db (eng s)) \<union> (\<lambda>i. build_key hash w (counter (keys s) + word_of_nat i)) ` {..<Suc n}"
    unfolding image_lessThan_Suc_shift s'(4) s1(4) s1(3) by auto
  have l: "insert_loop (do_insert hash w rng) (Suc n) (s, p) = Inr (s', p + word_of_nat (Suc n))"
    unfolding p using s1(1) s'(1) by simp
  show ?case using l s'(2) c d by blast
qed

lemma in_sync_load_state: "in_sync (load_state w)"
  by (simp add: in_sync_def load_state_def engine_wf_def rows_ok_def engine_init_def
      handle_new_def wf_empty_mapping)

lemma abs_db_engine_init: "abs_db engine_init = Map.empty"
  by (simp add: abs_db_def engine_init_def fun_eq_iff)

lemma build_key_ordered_inj:
  assumes o: "ordered_inserts w" and b: "unat c + n \<le> 2 ^ 64"
  shows "inj_on (\<lambda>i. build_key hash w (c + word_of_nat i)) {..<n}"
proof (rule inj_onI)
  fix i j assume i: "i \<in> {..<n}" and j: "j \<in> {..<n}"
    and eq: "build_key hash w (c + word_of_nat i) = build_key hash w (c + word_of_nat j)"
  have "unat (c + word_of_nat i) = unat (c + word_of_nat j)"
    using dec_value_build_key_ordered [OF o, of hash "c + word_of_nat i"]
      dec_value_build_key_ordered [OF o, of hash "c + word_of_nat j"] eq by simp
  moreover have "unat c + i < 2 ^ 64" "unat c + j < 2 ^ 64" using i j b by auto
  ultimately show "i = j" by (simp add: unat_add_of_nat_u64)
qed

subsection \<open>Witnesses\<close>

lemma build_key_shape_witness:
  "unat (zero_padding (cw_props
      \<lparr>cw_client_props = default_client_properties, cw_props = default_core_props\<lparr>zero_padding := 8\<rparr>,
       key_sequence = counter_new 0, ordered_inserts = True,
       field_length_generator = GConstant (constant_new 100), field_names = []\<rparr>)) < 2 ^ 31 \<and>
   build_key id
      \<lparr>cw_client_props = default_client_properties, cw_props = default_core_props\<lparr>zero_padding := 8\<rparr>,
       key_sequence = counter_new 0, ordered_inserts = True,
       field_length_generator = GConstant (constant_new 100), field_names = []\<rparr> 42 = ''user00000042''"
proof -
  let ?w = "\<lparr>cw_client_props = default_client_properties, cw_props = default_core_props\<lparr>zero_padding := 8\<rparr>,
       key_sequence = counter_new 0, ordered_inserts = True,
       field_length_generator = GConstant (constant_new 100), field_names = []\<rparr>"
  have h: "unat (zero_padding (cw_props ?w)) < 2 ^ 31" by simp
  have e: "''user'' @ replicate (unat (zero_padding (cw_props ?w)) - length (key_digits id ?w 42)) (CHR ''0'') @
           key_digits id ?w 42 = ''user00000042''"
    by code_simp
  show ?thesis using h build_key_shape [OF h, of id 42] e by simp
qed

lemma build_key_padding_overflow_witness:
  "unat (zero_padding (cw_props
      \<lparr>cw_client_props = default_client_properties, cw_props = default_core_props\<lparr>zero_padding := 0x80000000\<rparr>,
       key_sequence = counter_new 0, ordered_inserts = True,
       field_length_generator = GConstant (constant_new 100), field_names = []\<rparr>)) = 2 ^ 31 \<and>
   length (build_key id
      \<lparr>cw_client_props = default_client_properties, cw_props = default_core_props\<lparr>zero_padding := 0x80000000\<rparr>,
       key_sequence = counter_new 0, ordered_inserts = True,
       field_length_generator = GConstant (constant_new 100), field_names = []\<rparr> 42) = 2 ^ 31 + 4"
proof -
  let ?w = "\<lparr>cw_client_props = default_client_properties, cw_props = default_core_props\<lparr>zero_padding := 0x80000000\<rparr>,
       key_sequence = counter_new 0, ordered_inserts = True,
       field_length_generator = GConstant (constant_new 100), field_names = []\<rparr>"
  have h: "unat (zero_padding (cw_props ?w)) = 2 ^ 31" by simp
  show ?thesis using h build_key_padding_overflow [OF h, of id 42] by simp
qed

lemma workload_new_invalid_witness:
  "field_length_distribution (default_core_props\<lparr>field_length_distribution := ''zipfian''\<rparr>) \<noteq> ''constant'' \<and>
   workload_new (default_core_props\<lparr>field_length_distribution := ''zipfian''\<rparr>) default_client_properties =
     Inl InvalidFieldLengthDistribution"
  using workload_new_invalid [of "default_core_props\<lparr>field_length_distribution := ''zipfian''\<rparr>"
      default_client_properties]
  by simp

lemma workload_new_constant_witness:
  "field_length_distribution default_core_props = ''constant'' \<and>
   (\<exists>w. workload_new default_core_props default_client_properties = Inr w \<and>
        field_names w = map (\<lambda>i. ''field'' @ dec_string i) [0..<10] \<and>
        ordered_inserts w = False \<and> key_sequence w = counter_new 0 \<and>
        field_length_generator w = GConstant (constant_new 100))"
proof -
  have h: "field_length_distribution default_core_props = ''constant''"
    by (simp add: default_core_props_def)
  show ?thesis
    using h workload_new_constant [OF h, of default_client_properties]
    by (simp add: default_core_props_def)
qed

lemma build_values_shape_witness:
  "field_length_generator
      \<lparr>cw_client_props = default_client_properties, cw_props = default_core_props,
       key_sequence = counter_new 0, ordered_inserts = True,
       field_length_generator = GConstant (constant_new 3), field_names = [''f0'', ''f1'']\<rparr> =
     GConstant (constant_new 3) \<and>
   map fst (fst (build_values
      \<lparr>cw_client_props = default_client_properties, cw_props = default_core_props,
       key_sequence = counter_new 0, ordered_inserts = True,
       field_length_generator = GConstant (constant_new 3), field_names = [''f0'', ''f1'']\<rparr>
      (\<lambda>_. 7) 0)) = [''f0'', ''f1''] \<and>
   map (length \<circ> snd) (fst (build_values
      \<lparr>cw_client_props = default_client_properties, cw_props = default_core_props,
       key_sequence = counter_new 0, ordered_inserts = True,
       field_length_generator = GConstant (constant_new 3), field_names = [''f0'', ''f1'']\<rparr>
      (\<lambda>_. 7) 0)) = [3, 3]"
  using build_values_shape [of "\<lparr>cw_client_props = default_client_properties, cw_props = default_core_props,
       key_sequence = counter_new 0, ordered_inserts = True,
       field_length_generator = GConstant (constant_new 3), field_names = [''f0'', ''f1'']\<rparr>"
      "constant_new 3" "\<lambda>_. 7" 0]
  by (simp add: constant_new_def)

lemma do_insert_effect_witness:
  "in_sync (load_state
      \<lparr>cw_client_props = default_client_properties, cw_props = default_core_props,
       key_sequence = counter_new 0, ordered_inserts = True,
       field_length_generator = GConstant (constant_new 2), field_names = [''f0'', ''f1'']\<rparr>) \<and>
   distinct [''f0'', ''f1''] \<and>
   (\<exists>s'. do_insert id
      \<lparr>cw_client_props = default_client_properties, cw_props = default_core_props,
       key_sequence = counter_new 0, ordered_inserts = True,
       field_length_generator = GConstant (constant_new 2), field_names = [''f0'', ''f1'']\<rparr>
      (\<lambda>_. 7)
      (load_state
      \<lparr>cw_client_props = default_client_properties, cw_props = default_core_props,
       key_sequence = counter_new 0, ordered_inserts = True,
       field_length_generator = GConstant (constant_new 2), field_names = [''f0'', ''f1'']\<rparr>) = Inr s' \<and>
      in_sync s' \<and> counter (keys s') = 1 \<and>
      abs_db (eng s') = [build_key id
      \<lparr>cw_client_props = default_client_properties, cw_props = default_core_props,
       key_sequence = counter_new 0, ordered_inserts = True,
       field_length_generator = GConstant (constant_new 2), field_names = [''f0'', ''f1'']\<rparr> 0 \<mapsto>
         [''f0'' \<mapsto> [7, 7], ''f1'' \<mapsto> [7, 7]]])"
proof -
  let ?w = "\<lparr>cw_client_props = default_client_properties, cw_props = default_core_props,
       key_sequence = counter_new 0, ordered_inserts = True,
       field_length_generator = GConstant (constant_new 2), field_names = [''f0'', ''f1'']\<rparr>"
  have h: "in_sync (load_state ?w)" by (rule in_sync_load_state)
  have d: "distinct (field_names ?w)" by simp
  have v: "map_of (fst (build_values ?w (\<lambda>_. 7) 0)) = [''f0'' \<mapsto> [7, 7], ''f1'' \<mapsto> [7, 7]]"
    by (simp add: build_values_def constant_new_def constant_next_def upt_rec fun_upd_twist)
  show ?thesis
    using h do_insert_effect [OF h d, of id "\<lambda>_. 7"] v
    by (simp add: load_state_def counter_new_def abs_db_engine_init)
qed

end
