(* ===== verification/Driver.thy ===== *)
theory Driver
  imports Workload
begin

text \<open>
  The benchmark driver of \<open>src/ycsb/src/main.rs\<close>: \<open>init_clients\<close> builds the
  workload and the worker threads, each thread runs
  \<open>Client::setup_initial_data\<close> and \<open>Client::benchmark\<close> between waits on one
  \<open>Barrier\<close> of size \<open>thread_count + 1\<close>, and the main thread reports progress
  with \<open>show_progress\<close> and joins the workers.  The threads interleave: the
  state holds a program counter per thread and the shared objects (the
  barrier, every worker's \<open>AtomicU64\<close> progress counter, the workload's key
  counter, the storage engine), and a step is taken by one thread at a time.
  An event names the thread that moves; \<open>Release\<close> is the moment the last of
  the \<open>thread_count + 1\<close> participants arrives at the barrier and all leave it.
  One \<open>do_insert\<close> is one step: its counter \<open>fetch_add\<close> is atomic, and the
  table insert runs under the table's mutex.  \<open>Instant::now()\<close> reads a
  logical clock that every step advances by one, so the instants the program
  stores (\<open>start_time\<close>, each client's \<open>insert_end_time\<close> and
  \<open>benchmark_end_time\<close>) are ordered as the steps that take them.
\<close>

record core_properties =
  cp_workload :: string
  cp_db :: string
  max_execution_time :: u32
  thread_count :: u32
  target :: u32

definition default_core_properties :: "string \<Rightarrow> core_properties" where
  "default_core_properties wl =
     \<lparr>cp_workload = wl, cp_db = ''std_btreemap_mutex'', max_execution_time = 0, thread_count = 1,
      target = 0\<rparr>"

text \<open>Where a worker thread is in the closure of \<open>init_clients_internal\<close>.\<close>

datatype wpc =
    WWait1
  | WSetup
  | WLoad
  | WLoadInc
  | WWait2
  | WReset
  | WBench
  | WWait3
  | WExit
  | WPanic panic

text \<open>Where the main thread is in \<open>main\<close>; \<open>CJoin j\<close> joins worker \<open>j\<close> next.\<close>

datatype cpc =
    CWait1
  | CLoad
  | CWait2
  | CRun
  | CWait3
  | CJoin nat
  | CDone
  | CPanic panic

record worker =
  wpc :: wpc
  todo :: nat
  progress :: u64
  whdl :: handle
  wpos :: nat
  ins_end :: nat
  bench_end :: nat

record driver =
  cpc :: cpc
  prev_pct :: u64
  workers :: "worker list"
  dtc :: u32
  dwl :: core_workload
  dcp :: client_properties
  dkeys :: counter_gen
  deng :: engine
  clock :: nat
  start_time :: "nat option"
  insert_time :: "nat option"

datatype event = Worker nat | Coord | Release

text \<open>
  \<open>init_clients\<close>: the workload (only \<open>core\<close>), the engine (only
  \<open>std_btreemap_mutex\<close>), then \<open>thread_count\<close> workers with a fresh handle
  (\<open>Client::new\<close>; \<open>init_workload\<close> and \<open>init_database\<close> do nothing), a zero
  progress counter, about to wait on the barrier; the main thread prints and
  waits on it too.
\<close>

definition new_worker :: worker where
  "new_worker = \<lparr>wpc = WWait1, todo = 0, progress = 0, whdl = handle_new, wpos = 0, ins_end = 0, bench_end = 0\<rparr>"

definition init_clients :: "core_properties \<Rightarrow> client_properties \<Rightarrow> core_props \<Rightarrow> panic + driver" where
  "init_clients core cp props =
     (if cp_workload core \<noteq> ''core'' then Inl InvalidWorkload
      else case workload_new props cp of
        Inl err \<Rightarrow> Inl err
      | Inr w \<Rightarrow>
          (if cp_db core \<noteq> ''std_btreemap_mutex'' then Inl InvalidDb
           else Inr \<lparr>cpc = CWait1, prev_pct = 0,
                     workers = replicate (unat (thread_count core)) new_worker,
                     dtc = thread_count core, dwl = w, dcp = cp,
                     dkeys = key_sequence w, deng = engine_init,
                     clock = 0, start_time = None, insert_time = None\<rparr>))"

text \<open>
  One step of worker \<open>i\<close>: the count of \<open>setup_initial_data\<close>, one
  \<open>do_insert\<close>, the \<open>fetch_add(1)\<close> that follows it, the store of
  \<open>insert_end_time\<close> before the second wait, \<open>progress.store(0)\<close> with the
  count of \<open>benchmark\<close>, one \<open>fetch_add(1)\<close> of \<open>benchmark\<close>, the store of
  \<open>benchmark_end_time\<close> before the third wait.  A worker at a barrier has no
  step.
\<close>

definition worker_step :: "(u64 \<Rightarrow> u64) \<Rightarrow> (nat \<Rightarrow> nat \<Rightarrow> u8) \<Rightarrow> nat \<Rightarrow> driver \<Rightarrow> driver option" where
  "worker_step hash rng i s =
     (if length (workers s) \<le> i then None
      else let wk = workers s ! i; upd = (\<lambda>wk'. s\<lparr>workers := (workers s)[i := wk']\<rparr>) in
      case wpc wk of
        WSetup \<Rightarrow>
          (case partition_count (record_count (dcp s)) (word_of_nat i) (dtc s) of
             Inl err \<Rightarrow> Some (upd (wk\<lparr>wpc := WPanic err\<rparr>))
           | Inr c \<Rightarrow> Some (upd (wk\<lparr>wpc := WLoad, todo := unat c\<rparr>)))
      | WLoad \<Rightarrow>
          (if todo wk = 0 then Some (upd (wk\<lparr>wpc := WWait2, ins_end := clock s\<rparr>))
           else case do_insert hash (dwl s) (rng i)
                       \<lparr>keys = dkeys s, eng = deng s, hdl = whdl wk, rng_pos = wpos wk\<rparr> of
             Inl err \<Rightarrow> Some (upd (wk\<lparr>wpc := WPanic err\<rparr>))
           | Inr st \<Rightarrow>
               Some ((upd (wk\<lparr>wpc := WLoadInc, whdl := hdl st, wpos := rng_pos st\<rparr>))
                       \<lparr>dkeys := keys st, deng := eng st\<rparr>))
      | WLoadInc \<Rightarrow> Some (upd (wk\<lparr>wpc := WLoad, todo := todo wk - 1, progress := progress wk + 1\<rparr>))
      | WReset \<Rightarrow>
          (case partition_count (operation_count (dcp s)) (word_of_nat i) (dtc s) of
             Inl err \<Rightarrow> Some (upd (wk\<lparr>wpc := WPanic err, progress := 0\<rparr>))
           | Inr c \<Rightarrow> Some (upd (wk\<lparr>wpc := WBench, todo := unat c, progress := 0\<rparr>)))
      | WBench \<Rightarrow>
          (if todo wk = 0 then Some (upd (wk\<lparr>wpc := WWait3, bench_end := clock s\<rparr>))
           else Some (upd (wk\<lparr>todo := todo wk - 1, progress := progress wk + 1\<rparr>)))
      | _ \<Rightarrow> None)"

text \<open>
  One poll of \<open>show_progress count\<close>: sum the counters (\<open>u64\<close> addition),
  \<open>progress * 100 / count\<close> (a zero \<open>count\<close> panics), print on a change, and
  leave the loop when the sum is \<open>count\<close>.
\<close>

definition poll :: "u64 \<Rightarrow> cpc \<Rightarrow> driver \<Rightarrow> driver" where
  "poll count next s =
     (let p = sum_list (map progress (workers s)) in
      if count = 0 then s\<lparr>cpc := CPanic DivisionByZero\<rparr>
      else let pct = p * 100 div count;
               s' = (if prev_pct s \<noteq> pct then s\<lparr>prev_pct := pct\<rparr> else s)
           in if p = count then s'\<lparr>cpc := next\<rparr> else s')"

text \<open>
  One step of the main thread: after the first barrier, reading
  \<open>start_time\<close>; after the second, the load time (the latest
  \<open>insert_end_time\<close>, \<open>max().unwrap()\<close> panicking on no client, minus
  \<open>start_time\<close>, saturating at 0 as \<open>Instant\<close> subtraction does); a poll
  of the load or run report; or the join of the next worker
  (\<open>join().unwrap()\<close> panics on a worker that panicked and waits for one
  still running).  The 50 ms sleep and the printing are not steps.
\<close>

definition coord_step :: "driver \<Rightarrow> driver option" where
  "coord_step s =
     (case cpc s of
        CLoad \<Rightarrow>
          (case start_time s of
             None \<Rightarrow> Some (s\<lparr>start_time := Some (clock s)\<rparr>)
           | Some _ \<Rightarrow> Some (poll (record_count (dcp s)) CWait2 s))
      | CRun \<Rightarrow>
          (case insert_time s of
             None \<Rightarrow>
               (if workers s = [] then Some (s\<lparr>cpc := CPanic UnwrapNone\<rparr>)
                else Some (s\<lparr>insert_time := Some (Max (set (map ins_end (workers s))) - the (start_time s))\<rparr>))
           | Some _ \<Rightarrow> Some (poll (operation_count (dcp s)) CWait3 s))
      | CJoin j \<Rightarrow>
          (if length (workers s) \<le> j then Some (s\<lparr>cpc := CDone\<rparr>)
           else case wpc (workers s ! j) of
             WExit \<Rightarrow> Some (s\<lparr>cpc := CJoin (Suc j)\<rparr>)
           | WPanic _ \<Rightarrow> Some (s\<lparr>cpc := CPanic WorkerPanicked\<rparr>)
           | _ \<Rightarrow> None)
      | _ \<Rightarrow> None)"

text \<open>
  \<open>Barrier::wait\<close>: all \<open>thread_count + 1\<close> participants at the same wait leave
  it together.  The report loop starts with \<open>prev_percentage = 0\<close>.
\<close>

definition release :: "driver \<Rightarrow> driver option" where
  "release s =
     (let all_at = (\<lambda>p. list_all (\<lambda>wk. wpc wk = p) (workers s));
          mv = (\<lambda>p. map (\<lambda>wk. wk\<lparr>wpc := p\<rparr>) (workers s))
      in case cpc s of
           CWait1 \<Rightarrow> (if all_at WWait1 then Some (s\<lparr>cpc := CLoad, prev_pct := 0, workers := mv WSetup\<rparr>) else None)
         | CWait2 \<Rightarrow> (if all_at WWait2 then Some (s\<lparr>cpc := CRun, prev_pct := 0, workers := mv WReset\<rparr>) else None)
         | CWait3 \<Rightarrow> (if all_at WWait3 then Some (s\<lparr>cpc := CJoin 0, workers := mv WExit\<rparr>) else None)
         | _ \<Rightarrow> None)"

definition drv_step :: "(u64 \<Rightarrow> u64) \<Rightarrow> (nat \<Rightarrow> nat \<Rightarrow> u8) \<Rightarrow> event \<Rightarrow> driver \<Rightarrow> driver option" where
  "drv_step hash rng ev s =
     map_option (\<lambda>s'. s'\<lparr>clock := Suc (clock s)\<rparr>)
       (case ev of
          Worker i \<Rightarrow> worker_step hash rng i s
        | Coord \<Rightarrow> coord_step s
        | Release \<Rightarrow> release s)"

text \<open>A schedule: the events in the order they happen; each takes one tick.\<close>

fun run :: "(u64 \<Rightarrow> u64) \<Rightarrow> (nat \<Rightarrow> nat \<Rightarrow> u8) \<Rightarrow> event list \<Rightarrow> driver \<Rightarrow> driver option" where
  "run hash rng [] s = Some s"
| "run hash rng (ev # evs) s =
     (case drv_step hash rng ev s of None \<Rightarrow> None | Some s' \<Rightarrow> run hash rng evs s')"

text \<open>The states reachable from \<open>s0\<close> under every interleaving.\<close>

inductive reach :: "(u64 \<Rightarrow> u64) \<Rightarrow> (nat \<Rightarrow> nat \<Rightarrow> u8) \<Rightarrow> driver \<Rightarrow> driver \<Rightarrow> bool"
  for hash rng s0 where
  reach_init: "reach hash rng s0 s0"
| reach_step: "reach hash rng s0 s \<Longrightarrow> drv_step hash rng ev s = Some s' \<Longrightarrow> reach hash rng s0 s'"

subsection \<open>Frame lemmas and the configurations that never finish\<close>

lemma worker_step_frame:
  "worker_step hash rng i s = Some s' \<Longrightarrow>
   cpc s' = cpc s \<and> prev_pct s' = prev_pct s \<and> dtc s' = dtc s \<and> dwl s' = dwl s \<and> dcp s' = dcp s \<and>
   length (workers s') = length (workers s) \<and> start_time s' = start_time s \<and> insert_time s' = insert_time s"
  by (auto simp: worker_step_def Let_def split: if_splits wpc.splits sum.splits)

lemma coord_step_frame:
  "coord_step s = Some s' \<Longrightarrow>
   workers s' = workers s \<and> dtc s' = dtc s \<and> dwl s' = dwl s \<and> dcp s' = dcp s \<and>
   dkeys s' = dkeys s \<and> deng s' = deng s"
  by (auto simp: coord_step_def poll_def Let_def split: if_splits cpc.splits wpc.splits option.splits)

lemma release_frame:
  "release s = Some s' \<Longrightarrow>
   length (workers s') = length (workers s) \<and> dtc s' = dtc s \<and> dwl s' = dwl s \<and> dcp s' = dcp s \<and>
   dkeys s' = dkeys s \<and> deng s' = deng s"
  by (auto simp: release_def Let_def split: if_splits cpc.splits)

lemma drv_step_frame:
  "drv_step hash rng ev s = Some s' \<Longrightarrow>
   length (workers s') = length (workers s) \<and> dtc s' = dtc s \<and> dwl s' = dwl s \<and> dcp s' = dcp s"
  by (cases ev) (auto simp: drv_step_def dest: worker_step_frame coord_step_frame release_frame)

lemma reach_frame:
  "reach hash rng s0 s \<Longrightarrow>
   length (workers s) = length (workers s0) \<and> dtc s = dtc s0 \<and> dwl s = dwl s0 \<and> dcp s = dcp s0"
  by (induction rule: reach.induct) (auto dest: drv_step_frame)

lemma init_clients_ok:
  "init_clients core cp props = Inr s0 \<Longrightarrow>
   \<exists>w. workload_new props cp = Inr w \<and>
     s0 = \<lparr>cpc = CWait1, prev_pct = 0, workers = replicate (unat (thread_count core)) new_worker,
           dtc = thread_count core, dwl = w, dcp = cp, dkeys = key_sequence w, deng = engine_init,
           clock = 0, start_time = None, insert_time = None\<rparr>"
  by (auto simp: init_clients_def split: if_splits sum.splits)

lemma zero_records_stuck:
  assumes i: "init_clients core cp props = Inr s0" and r: "record_count cp = 0"
    and re: "reach hash rng s0 s"
  shows "cpc s \<in> {CWait1, CLoad, CPanic DivisionByZero}"
  using re
proof (induction rule: reach.induct)
  case reach_init
  then show ?case using init_clients_ok [OF i] by auto
next
  case (reach_step s ev s')
  have "dcp s = cp" using reach_frame [OF reach_step.hyps(1)] init_clients_ok [OF i] by auto
  then show ?case using reach_step.IH reach_step.hyps(2) r
    by (cases ev) (auto simp: drv_step_def coord_step_def poll_def release_def Let_def
        dest!: worker_step_frame split: if_splits option.splits)
qed

text \<open>
  C21: with \<open>recordcount = 0\<close> (its default) the run never completes: the main
  thread stays before or in the load report, whose first poll divides by the
  zero \<open>count\<close> and panics.
\<close>

theorem zero_records_never_done:
  assumes i: "init_clients core cp props = Inr s0" and r: "record_count cp = 0"
    and re: "reach hash rng s0 s"
  shows "cpc s \<in> {CWait1, CLoad, CPanic DivisionByZero}"
  by (rule zero_records_stuck [OF i r re])

text \<open>
  C22: with \<open>threadcount = 0\<close> and records to load, the main thread never
  leaves the load report: there is no counter to sum, the sum stays 0 and the
  report polls forever.
\<close>

theorem zero_threads_hang:
  assumes i: "init_clients core cp props = Inr s0" and t: "thread_count core = 0"
    and r: "record_count cp \<noteq> 0" and re: "reach hash rng s0 s"
  shows "cpc s \<in> {CWait1, CLoad}"
  using re
proof (induction rule: reach.induct)
  case reach_init
  then show ?case using init_clients_ok [OF i] by auto
next
  case (reach_step s ev s')
  have "dcp s = cp" "workers s = []"
    using reach_frame [OF reach_step.hyps(1)] init_clients_ok [OF i] t by auto
  then show ?case using reach_step.IH reach_step.hyps(2) r
    by (cases ev) (auto simp: drv_step_def coord_step_def poll_def release_def worker_step_def Let_def
        split: if_splits option.splits)
qed

lemma run_reach: "reach hash rng s0 s \<Longrightarrow> run hash rng evs s = Some s' \<Longrightarrow> reach hash rng s0 s'"
proof (induction evs arbitrary: s)
  case Nil
  then show ?case by simp
next
  case (Cons ev evs)
  then obtain s1 where s1: "drv_step hash rng ev s = Some s1" "run hash rng evs s1 = Some s'"
    by (auto split: option.splits)
  then show ?case using Cons.IH [OF reach_step [OF Cons.prems(1) s1(1)] s1(2)] by simp
qed

subsection \<open>The run report and the counter reset\<close>

text \<open>
  C23: the counters are reset (\<open>progress_client.store(0)\<close>) only after the
  second barrier, by each worker on its own, while the main thread already
  sums them for the run report.  With one thread and
  \<open>recordcount = operationcount = 1\<close>, some interleaving reaches a state where
  the main thread has left the run report and waits at the third barrier
  while the worker has not yet reset its counter, which still holds the load
  count: the report ends before the run phase has done anything.  The spec
  says the counters are reset before the run phase begins.
\<close>

theorem run_report_stale_progress:
  "\<exists>s0 s. init_clients (default_core_properties ''core'') \<lparr>operation_count = 1, record_count = 1\<rparr>
            (default_core_props\<lparr>field_count := 1, field_length := 1\<rparr>) = Inr s0 \<and>
          reach hash rng s0 s \<and> cpc s = CWait3 \<and> wpc (workers s ! 0) = WReset \<and>
          progress (workers s ! 0) = 1"
proof -
  let ?i = "init_clients (default_core_properties ''core'') \<lparr>operation_count = 1, record_count = 1\<rparr>
            (default_core_props\<lparr>field_count := 1, field_length := 1\<rparr>)"
  let ?evs = "[Release, Worker 0, Worker 0, Worker 0, Worker 0, Coord, Coord, Release, Coord, Coord]"
  have "\<not> isl ?i" by code_simp
  then have i: "?i = Inr (projr ?i)" by simp
  have r: "map_option (\<lambda>s. (cpc s, wpc (workers s ! 0), progress (workers s ! 0))) (run hash rng ?evs (projr ?i)) =
           Some (CWait3, WReset, 1)"
    by code_simp
  then obtain s where s: "run hash rng ?evs (projr ?i) = Some s" "cpc s = CWait3" "wpc (workers s ! 0) = WReset"
      "progress (workers s ! 0) = 1"
    by auto
  show ?thesis using i s run_reach [OF reach_init s(1)] by blast
qed

text \<open>
  C12: the load time printed by \<open>main\<close> starts at \<open>start_time\<close>, read by the main
  thread after it leaves the first barrier, when the workers are already
  loading: with one thread and one record the worker can finish its insert
  before \<open>start_time\<close> is read, and the measured load time is 0 (the printed
  throughput \<open>recordcount / 0.0\<close> is infinite).
\<close>

theorem load_time_measured_zero:
  "\<exists>s0 s. init_clients (default_core_properties ''core'') \<lparr>operation_count = 1, record_count = 1\<rparr>
            (default_core_props\<lparr>field_count := 1, field_length := 1\<rparr>) = Inr s0 \<and>
          reach hash rng s0 s \<and> cpc s = CRun \<and> unat (progress (workers s ! 0)) = 1 \<and>
          the (start_time s) > ins_end (workers s ! 0) \<and> insert_time s = Some 0"
proof -
  let ?i = "init_clients (default_core_properties ''core'') \<lparr>operation_count = 1, record_count = 1\<rparr>
            (default_core_props\<lparr>field_count := 1, field_length := 1\<rparr>)"
  let ?evs = "[Release, Worker 0, Worker 0, Worker 0, Worker 0, Coord, Coord, Release, Coord]"
  have "\<not> isl ?i" by code_simp
  then have i: "?i = Inr (projr ?i)" by simp
  have r: "map_option (\<lambda>s. (cpc s, unat (progress (workers s ! 0)), start_time s, ins_end (workers s ! 0), insert_time s))
             (run hash rng ?evs (projr ?i)) = Some (CRun, 1, Some 5, 4, Some 0)"
    by code_simp
  then obtain s where s: "run hash rng ?evs (projr ?i) = Some s" "cpc s = CRun" "unat (progress (workers s ! 0)) = 1"
      "start_time s = Some 5" "ins_end (workers s ! 0) = 4" "insert_time s = Some 0"
    by auto
  have lt: "the (start_time s) > ins_end (workers s ! 0)" using s(4,5) by simp
  show ?thesis using i s(2,3,6) lt run_reach [OF reach_init s(1)] by blast
qed

subsection \<open>Witnesses\<close>

lemma zero_records_never_done_witness:
  "init_clients (default_core_properties ''core'') \<lparr>operation_count = 1, record_count = 0\<rparr> default_core_props =
     Inr (projr (init_clients (default_core_properties ''core'') \<lparr>operation_count = 1, record_count = 0\<rparr> default_core_props)) \<and>
   record_count \<lparr>operation_count = 1, record_count = 0\<rparr> = 0 \<and>
   reach id (\<lambda>_ _. 0) (projr (init_clients (default_core_properties ''core'') \<lparr>operation_count = 1, record_count = 0\<rparr> default_core_props))
     (the (run id (\<lambda>_ _. 0) [Release, Coord]
        (projr (init_clients (default_core_properties ''core'') \<lparr>operation_count = 1, record_count = 0\<rparr> default_core_props)))) \<and>
   cpc (the (run id (\<lambda>_ _. 0) [Release, Coord]
        (projr (init_clients (default_core_properties ''core'') \<lparr>operation_count = 1, record_count = 0\<rparr> default_core_props))))
     \<in> {CWait1, CLoad, CPanic DivisionByZero}"
proof -
  let ?i = "init_clients (default_core_properties ''core'') \<lparr>operation_count = 1, record_count = 0\<rparr> default_core_props"
  let ?r = "run id (\<lambda>_ _. 0) [Release, Coord] (projr ?i)"
  have "\<not> isl ?i" by code_simp
  then have i: "?i = Inr (projr ?i)" by simp
  have r: "?r \<noteq> None" by code_simp
  then obtain y where y: "?r = Some y" by blast
  have re: "reach id (\<lambda>_ _. 0) (projr ?i) (the ?r)" using run_reach [OF reach_init y] y by simp
  have z: "record_count \<lparr>operation_count = 1, record_count = 0\<rparr> = (0::u64)" by simp
  show ?thesis using i z re zero_records_never_done [OF i z re] by blast
qed

lemma zero_threads_hang_witness:
  "init_clients ((default_core_properties ''core'')\<lparr>thread_count := 0\<rparr>) \<lparr>operation_count = 1, record_count = 1\<rparr> default_core_props =
     Inr (projr (init_clients ((default_core_properties ''core'')\<lparr>thread_count := 0\<rparr>) \<lparr>operation_count = 1, record_count = 1\<rparr> default_core_props)) \<and>
   thread_count ((default_core_properties ''core'')\<lparr>thread_count := 0\<rparr>) = 0 \<and>
   record_count \<lparr>operation_count = 1, record_count = 1\<rparr> \<noteq> 0 \<and>
   reach id (\<lambda>_ _. 0) (projr (init_clients ((default_core_properties ''core'')\<lparr>thread_count := 0\<rparr>) \<lparr>operation_count = 1, record_count = 1\<rparr> default_core_props))
     (the (run id (\<lambda>_ _. 0) [Release, Coord, Coord]
        (projr (init_clients ((default_core_properties ''core'')\<lparr>thread_count := 0\<rparr>) \<lparr>operation_count = 1, record_count = 1\<rparr> default_core_props)))) \<and>
   cpc (the (run id (\<lambda>_ _. 0) [Release, Coord, Coord]
        (projr (init_clients ((default_core_properties ''core'')\<lparr>thread_count := 0\<rparr>) \<lparr>operation_count = 1, record_count = 1\<rparr> default_core_props))))
     \<in> {CWait1, CLoad}"
proof -
  let ?c = "(default_core_properties ''core'')\<lparr>thread_count := 0\<rparr>"
  let ?i = "init_clients ?c \<lparr>operation_count = 1, record_count = 1\<rparr> default_core_props"
  let ?r = "run id (\<lambda>_ _. 0) [Release, Coord, Coord] (projr ?i)"
  have "\<not> isl ?i" by code_simp
  then have i: "?i = Inr (projr ?i)" by simp
  have r: "?r \<noteq> None" by code_simp
  then obtain y where y: "?r = Some y" by blast
  have re: "reach id (\<lambda>_ _. 0) (projr ?i) (the ?r)" using run_reach [OF reach_init y] y by simp
  have t: "thread_count ?c = 0" by simp
  have z: "record_count \<lparr>operation_count = 1, record_count = 1\<rparr> \<noteq> (0::u64)" by simp
  show ?thesis using i t z re zero_threads_hang [OF i t z re] by blast
qed

end
