(* ===== verification/Driver_Invariant.thy ===== *)
theory Driver_Invariant
  imports Driver
begin

text \<open>
  The invariant of the driver of \<open>main.rs\<close> over every interleaving of the
  worker threads and the main thread: what each worker's progress counter
  holds at each point of its thread (a share of \<open>recordcount\<close> or
  \<open>operationcount\<close> as computed by \<open>Client::setup_initial_data\<close> and
  \<open>Client::benchmark\<close>), which points of the workers go with which point of
  the main thread, and that the shared key counter and the table account for
  every insert performed.  It is proved for every reachable state by rule
  induction on \<open>reach\<close>; the load phase's result follows at the second barrier.
\<close>

subsection \<open>The driver's invariant\<close>

text \<open>A worker's share of \<open>amount\<close>, read in \<open>nat\<close>.\<close>

definition share :: "u64 \<Rightarrow> u32 \<Rightarrow> nat \<Rightarrow> nat" where
  "share amount tc i = unat amount div unat tc + (if i < unat amount mod unat tc then 1 else 0)"

text \<open>The inserts worker \<open>i\<close> has performed (\<open>WLoadInc\<close>: one more than counted).\<close>

definition inserted :: "u64 \<Rightarrow> u32 \<Rightarrow> nat \<Rightarrow> worker \<Rightarrow> nat" where
  "inserted R tc i wk =
     (case wpc wk of
        WLoad \<Rightarrow> unat (progress wk)
      | WLoadInc \<Rightarrow> Suc (unat (progress wk))
      | WWait2 \<Rightarrow> share R tc i
      | WReset \<Rightarrow> share R tc i
      | WBench \<Rightarrow> share R tc i
      | WWait3 \<Rightarrow> share R tc i
      | WExit \<Rightarrow> share R tc i
      | _ \<Rightarrow> 0)"

definition total_inserted :: "driver \<Rightarrow> nat" where
  "total_inserted s =
     (\<Sum>i<length (workers s). inserted (record_count (dcp s)) (dtc s) i (workers s ! i))"

text \<open>What a worker's counters hold at each point of its thread.\<close>

definition worker_inv :: "u64 \<Rightarrow> u64 \<Rightarrow> u32 \<Rightarrow> nat \<Rightarrow> worker \<Rightarrow> bool" where
  "worker_inv R Ops tc i wk =
     (case wpc wk of
        WWait1 \<Rightarrow> progress wk = 0
      | WSetup \<Rightarrow> progress wk = 0
      | WLoad \<Rightarrow> unat (progress wk) + todo wk = share R tc i
      | WLoadInc \<Rightarrow> 0 < todo wk \<and> unat (progress wk) + todo wk = share R tc i
      | WWait2 \<Rightarrow> unat (progress wk) = share R tc i
      | WReset \<Rightarrow> unat (progress wk) = share R tc i
      | WBench \<Rightarrow> unat (progress wk) + todo wk = share Ops tc i
      | WWait3 \<Rightarrow> unat (progress wk) = share Ops tc i
      | WExit \<Rightarrow> unat (progress wk) = share Ops tc i
      | WPanic _ \<Rightarrow> False)"

text \<open>
  Which points of a worker go with which point of the main thread; once the
  load report has ended, every worker has counted its whole share.
\<close>

definition phase_ok :: "u64 \<Rightarrow> u32 \<Rightarrow> cpc \<Rightarrow> nat \<Rightarrow> worker \<Rightarrow> bool" where
  "phase_ok R tc c i wk =
     (case c of
        CWait1 \<Rightarrow> wpc wk = WWait1
      | CLoad \<Rightarrow> wpc wk \<in> {WSetup, WLoad, WLoadInc, WWait2}
      | CWait2 \<Rightarrow> wpc wk \<in> {WSetup, WLoad, WWait2} \<and> unat (progress wk) = share R tc i
      | CRun \<Rightarrow> wpc wk \<in> {WReset, WBench, WWait3}
      | CWait3 \<Rightarrow> wpc wk \<in> {WReset, WBench, WWait3}
      | CJoin _ \<Rightarrow> wpc wk = WExit
      | CDone \<Rightarrow> wpc wk = WExit
      | CPanic _ \<Rightarrow> True)"

text \<open>
  The invariant: the workers' counters and points, a well-formed engine, and
  the shared key counter and table accounting for every insert performed.
\<close>

definition drv_inv :: "(u64 \<Rightarrow> u64) \<Rightarrow> driver \<Rightarrow> bool" where
  "drv_inv hash s \<longleftrightarrow>
     length (workers s) = unat (dtc s) \<and> dtc s \<noteq> 0 \<and>
     (\<forall>i < length (workers s).
        worker_inv (record_count (dcp s)) (operation_count (dcp s)) (dtc s) i (workers s ! i) \<and>
        phase_ok (record_count (dcp s)) (dtc s) (cpc s) i (workers s ! i)) \<and>
     engine_wf (deng s) \<and>
     counter (dkeys s) = counter (key_sequence (dwl s)) + word_of_nat (total_inserted s) \<and>
     dom (db (deng s)) =
       (\<lambda>j. build_key hash (dwl s) (counter (key_sequence (dwl s)) + word_of_nat j)) ` {..<total_inserted s}"

subsection \<open>Shares and sums\<close>

lemma partition_count_share:
  assumes tc: "tc \<noteq> 0" and i: "i < unat tc"
  shows "\<exists>c. partition_count a (word_of_nat i) tc = Inr c \<and> unat c = share a tc i"
proof -
  have "i < 2 ^ 32" using i unat_u32_bound [of tc] by linarith
  then have "unat (word_of_nat i :: u32) = i" by (rule unat_word_of_nat_u32)
  moreover obtain c where "partition_count a (word_of_nat i) tc = Inr c"
    using tc by (simp add: partition_count_def)
  ultimately show ?thesis using unat_partition_count [OF tc] by (auto simp: share_def)
qed

lemma sum_share: "tc \<noteq> 0 \<Longrightarrow> (\<Sum>i<unat tc. share a tc i) = unat a"
  by (simp add: share_def sum_stripes unat_gt_0)

lemma share_le: "tc \<noteq> 0 \<Longrightarrow> share a tc i \<le> unat a"
  by (simp add: share_def stripe_le unat_gt_0)

lemma share_lt: "tc \<noteq> 0 \<Longrightarrow> share a tc i < 2 ^ 64"
  using share_le [of tc a i] unat_u64_bound [of a] by linarith

lemma sum_list_progress:
  "sum_list (map progress ws) = word_of_nat (\<Sum>i<length ws. unat (progress (ws ! i)))"
proof -
  have "sum_list (map progress ws) = (\<Sum>i<length ws. progress (ws ! i))"
    by (simp add: sum_list_sum_nth atLeast0LessThan)
  then show ?thesis by (simp add: of_nat_sum)
qed

lemma total_inserted_update:
  assumes "i < length (workers s)"
  shows "total_inserted (s\<lparr>workers := (workers s)[i := wk'], dkeys := ks', deng := e'\<rparr>) +
           inserted (record_count (dcp s)) (dtc s) i (workers s ! i) =
         total_inserted s + inserted (record_count (dcp s)) (dtc s) i wk'"
  using sum_nth_update [OF assms, of "\<lambda>j. inserted (record_count (dcp s)) (dtc s) j" wk']
  by (simp add: total_inserted_def)

lemma drv_inv_update:
  assumes inv: "drv_inv hash s" and i: "i < length (workers s)"
    and wi: "worker_inv (record_count (dcp s)) (operation_count (dcp s)) (dtc s) i wk'"
    and po: "phase_ok (record_count (dcp s)) (dtc s) (cpc s) i wk'"
    and ins: "inserted (record_count (dcp s)) (dtc s) i wk' =
              inserted (record_count (dcp s)) (dtc s) i (workers s ! i) + k"
    and wf: "engine_wf e'"
    and ks: "counter ks' = counter (dkeys s) + word_of_nat k"
    and d: "dom (db e') = dom (db (deng s)) \<union>
              (\<lambda>j. build_key hash (dwl s) (counter (key_sequence (dwl s)) + word_of_nat j)) `
                {total_inserted s..<total_inserted s + k}"
  shows "drv_inv hash (s\<lparr>workers := (workers s)[i := wk'], dkeys := ks', deng := e'\<rparr>)"
proof -
  let ?s' = "s\<lparr>workers := (workers s)[i := wk'], dkeys := ks', deng := e'\<rparr>"
  have t: "total_inserted ?s' = total_inserted s + k"
    using total_inserted_update [OF i, where wk' = wk' and ks' = ks' and e' = e'] ins by simp
  have all: "\<forall>j < length (workers ?s').
        worker_inv (record_count (dcp ?s')) (operation_count (dcp ?s')) (dtc ?s') j (workers ?s' ! j) \<and>
        phase_ok (record_count (dcp ?s')) (dtc ?s') (cpc ?s') j (workers ?s' ! j)"
    using inv wi po i by (auto simp: drv_inv_def nth_list_update)
  have c: "counter (dkeys ?s') = counter (key_sequence (dwl ?s')) + word_of_nat (total_inserted ?s')"
    using inv ks t by (simp add: drv_inv_def add.assoc)
  have dm: "dom (db (deng ?s')) =
      (\<lambda>j. build_key hash (dwl ?s') (counter (key_sequence (dwl ?s')) + word_of_nat j)) ` {..<total_inserted ?s'}"
    using inv d t image_lessThan_extend by (simp add: drv_inv_def)
  show ?thesis using inv all c dm wf by (simp add: drv_inv_def)
qed

lemma drv_inv_update_local:
  assumes "drv_inv hash s" "i < length (workers s)"
    "worker_inv (record_count (dcp s)) (operation_count (dcp s)) (dtc s) i wk'"
    "phase_ok (record_count (dcp s)) (dtc s) (cpc s) i wk'"
    "inserted (record_count (dcp s)) (dtc s) i wk' = inserted (record_count (dcp s)) (dtc s) i (workers s ! i)"
  shows "drv_inv hash (s\<lparr>workers := (workers s)[i := wk']\<rparr>)"
proof -
  have "drv_inv hash (s\<lparr>workers := (workers s)[i := wk'], dkeys := dkeys s, deng := deng s\<rparr>)"
    using assms by (intro drv_inv_update [where k = 0]) (simp_all add: drv_inv_def)
  then show ?thesis by simp
qed

lemma worker_step_inv:
  assumes inv: "drv_inv hash s" and st: "worker_step hash rng i s = Some s'"
  shows "drv_inv hash s'"
proof -
  let ?R = "record_count (dcp s)" and ?O = "operation_count (dcp s)" and ?tc = "dtc s"
  define wk where "wk = workers s ! i"
  have i: "i < length (workers s)" using st by (simp add: worker_step_def split: if_splits)
  have wi: "worker_inv ?R ?O ?tc i wk" and po: "phase_ok ?R ?tc (cpc s) i wk"
    using inv i by (simp_all add: drv_inv_def wk_def)
  have tc: "?tc \<noteq> 0" and il: "i < unat ?tc" using inv i by (simp_all add: drv_inv_def)
  note upd = drv_inv_update_local [OF inv i]
  show ?thesis
  proof (cases "wpc wk")
    case WSetup
    obtain c where c: "partition_count ?R (word_of_nat i) ?tc = Inr c" "unat c = share ?R ?tc i"
      using partition_count_share [OF tc il] by blast
    have s': "s' = s\<lparr>workers := (workers s)[i := wk\<lparr>wpc := WLoad, todo := unat c\<rparr>]\<rparr>"
      using st i WSetup c by (simp add: worker_step_def wk_def Let_def)
    show ?thesis unfolding s'
      by (rule upd) (use wi po WSetup c in \<open>auto simp: worker_inv_def phase_ok_def inserted_def wk_def split: cpc.splits\<close>)
  next
    case WLoad
    show ?thesis
    proof (cases "todo wk = 0")
      case True
      have s': "s' = s\<lparr>workers := (workers s)[i := wk\<lparr>wpc := WWait2, ins_end := clock s\<rparr>]\<rparr>"
        using st i WLoad True by (simp add: worker_step_def wk_def Let_def)
      show ?thesis unfolding s'
        by (rule upd) (use wi po WLoad True in \<open>auto simp: worker_inv_def phase_ok_def inserted_def wk_def split: cpc.splits\<close>)
    next
      case False
      let ?st = "\<lparr>keys = dkeys s, eng = deng s, hdl = whdl wk, rng_pos = wpos wk\<rparr>"
      have wf: "engine_wf (eng ?st)" using inv by (simp add: drv_inv_def)
      obtain st' where d: "do_insert hash (dwl s) (rng i) ?st = Inr st'" "engine_wf (eng st')"
          "counter (keys st') = counter (dkeys s) + 1"
          "dom (db (eng st')) = insert (build_key hash (dwl s) (counter (dkeys s))) (dom (db (deng s)))"
        using do_insert_any_handle [OF wf, of hash "dwl s" "rng i"] by auto
      have s': "s' = s\<lparr>workers := (workers s)[i := wk\<lparr>wpc := WLoadInc, whdl := hdl st', wpos := rng_pos st'\<rparr>],
                       dkeys := keys st', deng := eng st'\<rparr>"
        using st i WLoad False d(1) by (simp add: worker_step_def wk_def Let_def)
      have nc: "cpc s \<noteq> CWait2" using wi po WLoad False by (auto simp: worker_inv_def phase_ok_def)
      have c: "counter (dkeys s) = counter (key_sequence (dwl s)) + word_of_nat (total_inserted s)"
        using inv by (simp add: drv_inv_def)
      show ?thesis unfolding s'
      proof (rule drv_inv_update [OF inv i, where k = 1])
        show "dom (db (eng st')) = dom (db (deng s)) \<union>
              (\<lambda>j. build_key hash (dwl s) (counter (key_sequence (dwl s)) + word_of_nat j)) `
                {total_inserted s..<total_inserted s + 1}"
          using d(4) c by auto
      qed (use wi po WLoad False nc d in \<open>auto simp: worker_inv_def phase_ok_def inserted_def wk_def split: cpc.splits\<close>)
    qed
  next
    case WLoadInc
    have lt: "unat (progress wk) + 1 < 2 ^ 64"
      using wi WLoadInc share_lt [OF tc, of ?R i] by (simp add: worker_inv_def)
    have s': "s' = s\<lparr>workers := (workers s)[i := wk\<lparr>wpc := WLoad, todo := todo wk - 1, progress := progress wk + 1\<rparr>]\<rparr>"
      using st i WLoadInc by (simp add: worker_step_def wk_def Let_def)
    show ?thesis unfolding s'
      by (rule upd) (use wi po WLoadInc unat_inc_u64 [OF lt] in \<open>auto simp: worker_inv_def phase_ok_def inserted_def wk_def split: cpc.splits\<close>)
  next
    case WReset
    obtain c where c: "partition_count ?O (word_of_nat i) ?tc = Inr c" "unat c = share ?O ?tc i"
      using partition_count_share [OF tc il] by blast
    have s': "s' = s\<lparr>workers := (workers s)[i := wk\<lparr>wpc := WBench, todo := unat c, progress := 0\<rparr>]\<rparr>"
      using st i WReset c by (simp add: worker_step_def wk_def Let_def)
    show ?thesis unfolding s'
      by (rule upd) (use wi po WReset c in \<open>auto simp: worker_inv_def phase_ok_def inserted_def wk_def split: cpc.splits\<close>)
  next
    case WBench
    show ?thesis
    proof (cases "todo wk = 0")
      case True
      have s': "s' = s\<lparr>workers := (workers s)[i := wk\<lparr>wpc := WWait3, bench_end := clock s\<rparr>]\<rparr>"
        using st i WBench True by (simp add: worker_step_def wk_def Let_def)
      show ?thesis unfolding s'
        by (rule upd) (use wi po WBench True in \<open>auto simp: worker_inv_def phase_ok_def inserted_def wk_def split: cpc.splits\<close>)
    next
      case False
      have lt: "unat (progress wk) + 1 < 2 ^ 64"
        using wi WBench False share_lt [OF tc, of ?O i] by (simp add: worker_inv_def)
      have s': "s' = s\<lparr>workers := (workers s)[i := wk\<lparr>todo := todo wk - 1, progress := progress wk + 1\<rparr>]\<rparr>"
        using st i WBench False by (simp add: worker_step_def wk_def Let_def)
      show ?thesis unfolding s'
        by (rule upd) (use wi po WBench False unat_inc_u64 [OF lt] in \<open>auto simp: worker_inv_def phase_ok_def inserted_def wk_def split: cpc.splits\<close>)
    qed
  qed (use st i in \<open>simp_all add: worker_step_def wk_def Let_def\<close>)
qed

lemma drv_inv_cpc:
  assumes inv: "drv_inv hash s"
    and fr: "workers s' = workers s" "dtc s' = dtc s" "dwl s' = dwl s" "dcp s' = dcp s"
      "dkeys s' = dkeys s" "deng s' = deng s"
    and po: "\<forall>i < length (workers s). phase_ok (record_count (dcp s)) (dtc s) (cpc s') i (workers s ! i)"
  shows "drv_inv hash s'"
  using inv fr po by (simp add: drv_inv_def total_inserted_def)

lemma progress_le_share:
  assumes inv: "drv_inv hash s" and c: "cpc s = CLoad" and i: "i < length (workers s)"
  shows "unat (progress (workers s ! i)) \<le> share (record_count (dcp s)) (dtc s) i"
proof -
  have "worker_inv (record_count (dcp s)) (operation_count (dcp s)) (dtc s) i (workers s ! i)"
       "phase_ok (record_count (dcp s)) (dtc s) (cpc s) i (workers s ! i)"
    using inv i by (simp_all add: drv_inv_def)
  then show ?thesis using c by (auto simp: worker_inv_def phase_ok_def)
qed

lemma load_report_exit:
  assumes inv: "drv_inv hash s" and c: "cpc s = CLoad"
    and p: "sum_list (map progress (workers s)) = record_count (dcp s)"
  shows "\<forall>i < length (workers s). phase_ok (record_count (dcp s)) (dtc s) CWait2 i (workers s ! i)"
proof -
  let ?R = "record_count (dcp s)" and ?tc = "dtc s" and ?ws = "workers s"
  have tc: "?tc \<noteq> 0" and n: "length ?ws = unat ?tc" using inv by (simp_all add: drv_inv_def)
  have le: "\<forall>i < length ?ws. unat (progress (?ws ! i)) \<le> share ?R ?tc i"
    using progress_le_share [OF inv c] by blast
  have ss: "(\<Sum>i<length ?ws. share ?R ?tc i) = unat ?R" using sum_share [OF tc] n by simp
  have "(\<Sum>i<length ?ws. unat (progress (?ws ! i))) \<le> (\<Sum>i<length ?ws. share ?R ?tc i)"
    by (rule sum_mono) (use le in simp)
  then have "(\<Sum>i<length ?ws. unat (progress (?ws ! i))) \<le> unat ?R" by (simp only: ss)
  then have "(\<Sum>i<length ?ws. unat (progress (?ws ! i))) < 2 ^ 64" using unat_u64_bound [of ?R] by linarith
  then have "unat (sum_list (map progress ?ws)) = (\<Sum>i<length ?ws. unat (progress (?ws ! i)))"
    unfolding sum_list_progress by (rule unat_word_of_nat_u64)
  with p ss have "(\<Sum>i<length ?ws. unat (progress (?ws ! i))) = (\<Sum>i<length ?ws. share ?R ?tc i)" by simp
  then have eq: "\<forall>i < length ?ws. unat (progress (?ws ! i)) = share ?R ?tc i"
    by (rule sums_equal_pointwise [OF le])
  show ?thesis
  proof (intro allI impI)
    fix i assume i: "i < length ?ws"
    have "worker_inv ?R (operation_count (dcp s)) ?tc i (?ws ! i)" "phase_ok ?R ?tc (cpc s) i (?ws ! i)"
      using inv i by (simp_all add: drv_inv_def)
    then show "phase_ok ?R ?tc CWait2 i (?ws ! i)"
      using eq i c by (auto simp: worker_inv_def phase_ok_def)
  qed
qed

lemma coord_step_inv:
  assumes inv: "drv_inv hash s" and st: "coord_step s = Some s'"
  shows "drv_inv hash s'"
proof -
  have fr: "workers s' = workers s" "dtc s' = dtc s" "dwl s' = dwl s" "dcp s' = dcp s"
      "dkeys s' = dkeys s" "deng s' = deng s"
    using coord_step_frame [OF st] by simp_all
  have po: "\<forall>i < length (workers s). phase_ok (record_count (dcp s)) (dtc s) (cpc s') i (workers s ! i)"
  proof (cases "cpc s")
    case CLoad
    then show ?thesis
      using st inv load_report_exit [OF inv CLoad]
      by (auto simp: coord_step_def poll_def Let_def drv_inv_def phase_ok_def split: if_splits option.splits)
  next
    case CRun
    then show ?thesis
      using st inv by (auto simp: coord_step_def poll_def Let_def drv_inv_def phase_ok_def split: if_splits option.splits)
  next
    case (CJoin j)
    have "\<not> (\<exists>e. wpc (workers s ! j) = WPanic e)" if "j < length (workers s)"
      using inv that by (auto simp: drv_inv_def worker_inv_def)
    then show ?thesis
      using st inv CJoin by (auto simp: coord_step_def drv_inv_def phase_ok_def split: if_splits wpc.splits)
  qed (use st in \<open>simp_all add: coord_step_def\<close>)
  show ?thesis by (rule drv_inv_cpc [OF inv fr po])
qed

lemma release_moves:
  assumes "release s = Some s'"
  obtains p p' c' where "list_all (\<lambda>wk. wpc wk = p) (workers s)"
    "s' = s\<lparr>cpc := c', prev_pct := (if cpc s = CWait3 then prev_pct s else 0), workers := map (\<lambda>wk. wk\<lparr>wpc := p'\<rparr>) (workers s)\<rparr>"
    "(cpc s = CWait1 \<and> p = WWait1 \<and> p' = WSetup \<and> c' = CLoad) \<or>
     (cpc s = CWait2 \<and> p = WWait2 \<and> p' = WReset \<and> c' = CRun) \<or>
     (cpc s = CWait3 \<and> p = WWait3 \<and> p' = WExit \<and> c' = CJoin 0)"
  using assms by (auto simp: release_def Let_def split: cpc.splits if_splits)

lemma release_inv:
  assumes inv: "drv_inv hash s" and st: "release s = Some s'"
  shows "drv_inv hash s'"
proof -
  obtain p p' c' where at: "list_all (\<lambda>wk. wpc wk = p) (workers s)"
    and s': "s' = s\<lparr>cpc := c', prev_pct := (if cpc s = CWait3 then prev_pct s else 0), workers := map (\<lambda>wk. wk\<lparr>wpc := p'\<rparr>) (workers s)\<rparr>"
    and cs: "(cpc s = CWait1 \<and> p = WWait1 \<and> p' = WSetup \<and> c' = CLoad) \<or>
     (cpc s = CWait2 \<and> p = WWait2 \<and> p' = WReset \<and> c' = CRun) \<or>
     (cpc s = CWait3 \<and> p = WWait3 \<and> p' = WExit \<and> c' = CJoin 0)"
    using release_moves [OF st] by blast
  let ?R = "record_count (dcp s)" and ?O = "operation_count (dcp s)" and ?tc = "dtc s"
  have w: "\<forall>i < length (workers s). wpc (workers s ! i) = p" using at by (simp add: list_all_length)
  have each: "worker_inv ?R ?O ?tc i ((workers s ! i)\<lparr>wpc := p'\<rparr>) \<and> phase_ok ?R ?tc c' i ((workers s ! i)\<lparr>wpc := p'\<rparr>) \<and>
      inserted ?R ?tc i ((workers s ! i)\<lparr>wpc := p'\<rparr>) = inserted ?R ?tc i (workers s ! i)"
    if i: "i < length (workers s)" for i
  proof -
    have "worker_inv ?R ?O ?tc i (workers s ! i)" using inv i by (simp add: drv_inv_def)
    then show ?thesis using w i cs by (auto simp: worker_inv_def phase_ok_def inserted_def)
  qed
  have "total_inserted s' = (\<Sum>i<length (workers s). inserted ?R ?tc i ((workers s ! i)\<lparr>wpc := p'\<rparr>))"
    by (simp add: s' total_inserted_def)
  also have "\<dots> = (\<Sum>i<length (workers s). inserted ?R ?tc i (workers s ! i))"
  proof (rule sum.cong)
    fix i assume "i \<in> {..<length (workers s)}"
    then show "inserted ?R ?tc i ((workers s ! i)\<lparr>wpc := p'\<rparr>) = inserted ?R ?tc i (workers s ! i)"
      using each [of i] by simp
  qed simp
  finally have t: "total_inserted s' = total_inserted s" by (simp add: total_inserted_def)
  show ?thesis using inv each t s' by (simp add: drv_inv_def)
qed

text \<open>The clock is not part of the invariant.\<close>

lemma drv_inv_clock [simp]: "drv_inv hash (s\<lparr>clock := n\<rparr>) = drv_inv hash s"
  by (simp add: drv_inv_def total_inserted_def)

lemma drv_step_inv: "drv_inv hash s \<Longrightarrow> drv_step hash rng ev s = Some s' \<Longrightarrow> drv_inv hash s'"
  by (cases ev) (auto simp: drv_step_def intro: worker_step_inv coord_step_inv release_inv)

lemma drv_inv_init:
  assumes i: "init_clients core cp props = Inr s0" and t: "thread_count core \<noteq> 0"
  shows "drv_inv hash s0"
proof -
  obtain w where s0: "s0 = \<lparr>cpc = CWait1, prev_pct = 0, workers = replicate (unat (thread_count core)) new_worker,
           dtc = thread_count core, dwl = w, dcp = cp, dkeys = key_sequence w, deng = engine_init,
           clock = 0, start_time = None, insert_time = None\<rparr>"
    using init_clients_ok [OF i] by blast
  have "total_inserted s0 = 0" by (simp add: s0 total_inserted_def inserted_def new_worker_def)
  then show ?thesis
    using t by (simp add: s0 drv_inv_def worker_inv_def phase_ok_def new_worker_def engine_wf_def
        engine_init_def wf_empty_mapping)
qed

lemma reach_inv:
  assumes i: "init_clients core cp props = Inr s0" and t: "thread_count core \<noteq> 0"
    and re: "reach hash rng s0 s"
  shows "drv_inv hash s"
  using re
proof (induction rule: reach.induct)
  case reach_init
  show ?case by (rule drv_inv_init [OF i t])
next
  case (reach_step s ev s')
  show ?case by (rule drv_step_inv [OF reach_step.IH reach_step.hyps(2)])
qed

lemma reach_config:
  assumes i: "init_clients core cp props = Inr s0" and re: "reach hash rng s0 s"
  shows "\<exists>w. workload_new props cp = Inr w \<and> dwl s = w \<and> dcp s = cp \<and> dtc s = thread_count core \<and>
             length (workers s) = unat (thread_count core)"
  using init_clients_ok [OF i] reach_frame [OF re] by auto

lemma load_done_inserted:
  assumes inv: "drv_inv hash s" and c: "cpc s = CWait2"
  shows "total_inserted s = unat (record_count (dcp s))"
    and "\<forall>i < length (workers s). unat (progress (workers s ! i)) = share (record_count (dcp s)) (dtc s) i"
proof -
  let ?R = "record_count (dcp s)" and ?tc = "dtc s"
  have each: "inserted ?R ?tc i (workers s ! i) = share ?R ?tc i \<and> unat (progress (workers s ! i)) = share ?R ?tc i"
    if i: "i < length (workers s)" for i
  proof -
    have "worker_inv ?R (operation_count (dcp s)) ?tc i (workers s ! i)" "phase_ok ?R ?tc (cpc s) i (workers s ! i)"
      using inv i by (simp_all add: drv_inv_def)
    then show ?thesis using c by (auto simp: worker_inv_def phase_ok_def inserted_def)
  qed
  have tc: "?tc \<noteq> 0" and n: "length (workers s) = unat ?tc" using inv by (simp_all add: drv_inv_def)
  have "total_inserted s = (\<Sum>i<length (workers s). share ?R ?tc i)"
    unfolding total_inserted_def by (rule sum.cong) (simp_all add: each)
  then show "total_inserted s = unat ?R" using sum_share [OF tc] n by simp
  show "\<forall>i < length (workers s). unat (progress (workers s ! i)) = share ?R ?tc i" using each by blast
qed

lemma progress_sum_shares:
  assumes tc: "tc \<noteq> 0" and n: "length ws = unat tc"
    and p: "\<forall>j < length ws. unat (progress (ws ! j)) = share a tc j"
  shows "sum_list (map progress ws) = a"
proof -
  have "(\<Sum>j<length ws. unat (progress (ws ! j))) = (\<Sum>j<length ws. share a tc j)"
    using p by (intro sum.cong) simp_all
  also have "\<dots> = unat a" using sum_share [OF tc] n by simp
  finally show ?thesis by (simp add: sum_list_progress del: of_nat_sum)
qed

lemma key_start:
  assumes i: "init_clients core cp props = Inr s0" and re: "reach hash rng s0 s"
  shows "counter (key_sequence (dwl s)) = insert_start props \<and> dcp s = cp \<and>
         ordered_inserts (dwl s) = (insert_order props \<noteq> ''hashed'')"
proof -
  obtain w where w: "workload_new props cp = Inr w" "dwl s = w" "dcp s = cp"
    using reach_config [OF i re] by blast
  then show ?thesis using workload_new_fields [OF w(1)] by (simp add: counter_new_def)
qed

lemma load_phase_keys:
  assumes i: "init_clients core cp props = Inr s0" and t: "thread_count core \<noteq> 0"
    and re: "reach hash rng s0 s" and c: "cpc s = CWait2"
  shows "dom (db (deng s)) =
           (\<lambda>j. build_key hash (dwl s) (insert_start props + word_of_nat j)) ` {..<unat (record_count cp)}"
proof -
  have inv: "drv_inv hash s" by (rule reach_inv [OF i t re])
  have k: "counter (key_sequence (dwl s)) = insert_start props" "dcp s = cp" using key_start [OF i re] by simp_all
  show ?thesis using inv load_done_inserted(1) [OF inv c] k by (simp add: drv_inv_def)
qed

subsection \<open>What every interleaving keeps and what the load phase leaves\<close>

text \<open>
  C24: in every state reachable by any interleaving of the workers and the
  main thread, no worker has panicked, the engine's registry is well formed,
  the shared key counter is \<open>insertstart\<close> plus the number of inserts
  performed, and the table holds exactly the keys built from the numbers
  handed out so far.
\<close>

theorem driver_invariant:
  assumes i: "init_clients core cp props = Inr s0" and t: "thread_count core \<noteq> 0"
    and re: "reach hash rng s0 s"
  shows "engine_wf (deng s) \<and> wpc ` set (workers s) \<inter> range WPanic = {} \<and>
         counter (dkeys s) = insert_start props + word_of_nat (total_inserted s) \<and>
         dom (db (deng s)) =
           (\<lambda>j. build_key hash (dwl s) (insert_start props + word_of_nat j)) ` {..<total_inserted s}"
proof -
  have inv: "drv_inv hash s" by (rule reach_inv [OF i t re])
  have k: "counter (key_sequence (dwl s)) = insert_start props" using key_start [OF i re] by simp
  have "wpc ` set (workers s) \<inter> range WPanic = {}"
    using inv by (fastforce simp: drv_inv_def worker_inv_def in_set_conv_nth)
  then show ?thesis using inv k by (simp add: drv_inv_def)
qed

text \<open>
  C25: once the main thread has left the load report (it waits at the second
  barrier), in any interleaving and for any number of threads, the workers'
  progress counters sum to \<open>recordcount\<close> and the table holds exactly the
  keys built from \<open>insertstart, .., insertstart + recordcount - 1\<close>: the
  report ends only when every insert of the load phase is done.
\<close>

theorem load_phase_complete:
  assumes i: "init_clients core cp props = Inr s0" and t: "thread_count core \<noteq> 0"
    and re: "reach hash rng s0 s" and c: "cpc s = CWait2"
  shows "sum_list (map progress (workers s)) = record_count cp \<and>
         dom (db (deng s)) =
           (\<lambda>j. build_key hash (dwl s) (insert_start props + word_of_nat j)) ` {..<unat (record_count cp)}"
proof -
  have inv: "drv_inv hash s" by (rule reach_inv [OF i t re])
  have cp: "dcp s = cp" using key_start [OF i re] by simp
  note d = load_done_inserted [OF inv c]
  have tc: "dtc s \<noteq> 0" and n: "length (workers s) = unat (dtc s)" using inv by (simp_all add: drv_inv_def)
  have "sum_list (map progress (workers s)) = record_count cp"
    using progress_sum_shares [OF tc n] d(2) cp by simp
  then show ?thesis using load_phase_keys [OF i t re c] by blast
qed

text \<open>
  C26: the end-to-end scenario of the spec: with ordered inserts and
  \<open>insertstart + recordcount \<le> 2^64\<close>, after the load phase the table holds
  exactly \<open>recordcount\<close> distinct keys, for any number of threads and any
  interleaving (the registry defects of the handles do not lose keys).
\<close>

theorem load_phase_distinct_keys:
  assumes i: "init_clients core cp props = Inr s0" and t: "thread_count core \<noteq> 0"
    and o: "insert_order props \<noteq> ''hashed''"
    and b: "unat (insert_start props) + unat (record_count cp) \<le> 2 ^ 64"
    and re: "reach hash rng s0 s" and c: "cpc s = CWait2"
  shows "card (dom (db (deng s))) = unat (record_count cp)"
proof -
  have ord: "ordered_inserts (dwl s)" using key_start [OF i re] o by simp
  show ?thesis
    unfolding load_phase_keys [OF i t re c]
    using card_image [OF build_key_ordered_inj [OF ord b, of hash]] by simp
qed

subsection \<open>Witnesses\<close>

text \<open>Two threads load three ordered records; the schedule runs worker 0, then worker 1, then one poll.\<close>

lemma driver_invariant_witness:
  "init_clients ((default_core_properties ''core'')\<lparr>thread_count := 2\<rparr>) \<lparr>operation_count = 1, record_count = 3\<rparr> (default_core_props\<lparr>field_count := 1, field_length := 1, insert_order := ''ordered''\<rparr>) = Inr (projr (init_clients ((default_core_properties ''core'')\<lparr>thread_count := 2\<rparr>) \<lparr>operation_count = 1, record_count = 3\<rparr> (default_core_props\<lparr>field_count := 1, field_length := 1, insert_order := ''ordered''\<rparr>))) \<and> thread_count ((default_core_properties ''core'')\<lparr>thread_count := 2\<rparr>) \<noteq> 0 \<and> reach id (\<lambda>_ _. 0) (projr (init_clients ((default_core_properties ''core'')\<lparr>thread_count := 2\<rparr>) \<lparr>operation_count = 1, record_count = 3\<rparr> (default_core_props\<lparr>field_count := 1, field_length := 1, insert_order := ''ordered''\<rparr>))) (the (run id (\<lambda>_ _. 0) ([Release] @ replicate 6 (Worker 0) @ replicate 4 (Worker 1) @ [Coord, Coord]) (projr (init_clients ((default_core_properties ''core'')\<lparr>thread_count := 2\<rparr>) \<lparr>operation_count = 1, record_count = 3\<rparr> (default_core_props\<lparr>field_count := 1, field_length := 1, insert_order := ''ordered''\<rparr>))))) \<and>
   engine_wf (deng (the (run id (\<lambda>_ _. 0) ([Release] @ replicate 6 (Worker 0) @ replicate 4 (Worker 1) @ [Coord, Coord]) (projr (init_clients ((default_core_properties ''core'')\<lparr>thread_count := 2\<rparr>) \<lparr>operation_count = 1, record_count = 3\<rparr> (default_core_props\<lparr>field_count := 1, field_length := 1, insert_order := ''ordered''\<rparr>)))))) \<and> wpc ` set (workers (the (run id (\<lambda>_ _. 0) ([Release] @ replicate 6 (Worker 0) @ replicate 4 (Worker 1) @ [Coord, Coord]) (projr (init_clients ((default_core_properties ''core'')\<lparr>thread_count := 2\<rparr>) \<lparr>operation_count = 1, record_count = 3\<rparr> (default_core_props\<lparr>field_count := 1, field_length := 1, insert_order := ''ordered''\<rparr>)))))) \<inter> range WPanic = {} \<and>
   counter (dkeys (the (run id (\<lambda>_ _. 0) ([Release] @ replicate 6 (Worker 0) @ replicate 4 (Worker 1) @ [Coord, Coord]) (projr (init_clients ((default_core_properties ''core'')\<lparr>thread_count := 2\<rparr>) \<lparr>operation_count = 1, record_count = 3\<rparr> (default_core_props\<lparr>field_count := 1, field_length := 1, insert_order := ''ordered''\<rparr>)))))) = insert_start (default_core_props\<lparr>field_count := 1, field_length := 1, insert_order := ''ordered''\<rparr>) + word_of_nat (total_inserted (the (run id (\<lambda>_ _. 0) ([Release] @ replicate 6 (Worker 0) @ replicate 4 (Worker 1) @ [Coord, Coord]) (projr (init_clients ((default_core_properties ''core'')\<lparr>thread_count := 2\<rparr>) \<lparr>operation_count = 1, record_count = 3\<rparr> (default_core_props\<lparr>field_count := 1, field_length := 1, insert_order := ''ordered''\<rparr>)))))) \<and>
   dom (db (deng (the (run id (\<lambda>_ _. 0) ([Release] @ replicate 6 (Worker 0) @ replicate 4 (Worker 1) @ [Coord, Coord]) (projr (init_clients ((default_core_properties ''core'')\<lparr>thread_count := 2\<rparr>) \<lparr>operation_count = 1, record_count = 3\<rparr> (default_core_props\<lparr>field_count := 1, field_length := 1, insert_order := ''ordered''\<rparr>))))))) =
     (\<lambda>j. build_key id (dwl (the (run id (\<lambda>_ _. 0) ([Release] @ replicate 6 (Worker 0) @ replicate 4 (Worker 1) @ [Coord, Coord]) (projr (init_clients ((default_core_properties ''core'')\<lparr>thread_count := 2\<rparr>) \<lparr>operation_count = 1, record_count = 3\<rparr> (default_core_props\<lparr>field_count := 1, field_length := 1, insert_order := ''ordered''\<rparr>)))))) (insert_start (default_core_props\<lparr>field_count := 1, field_length := 1, insert_order := ''ordered''\<rparr>) + word_of_nat j)) ` {..<total_inserted (the (run id (\<lambda>_ _. 0) ([Release] @ replicate 6 (Worker 0) @ replicate 4 (Worker 1) @ [Coord, Coord]) (projr (init_clients ((default_core_properties ''core'')\<lparr>thread_count := 2\<rparr>) \<lparr>operation_count = 1, record_count = 3\<rparr> (default_core_props\<lparr>field_count := 1, field_length := 1, insert_order := ''ordered''\<rparr>)))))}"
proof -
  have "\<not> isl (init_clients ((default_core_properties ''core'')\<lparr>thread_count := 2\<rparr>) \<lparr>operation_count = 1, record_count = 3\<rparr> (default_core_props\<lparr>field_count := 1, field_length := 1, insert_order := ''ordered''\<rparr>))" by code_simp
  then have i: "init_clients ((default_core_properties ''core'')\<lparr>thread_count := 2\<rparr>) \<lparr>operation_count = 1, record_count = 3\<rparr> (default_core_props\<lparr>field_count := 1, field_length := 1, insert_order := ''ordered''\<rparr>) = Inr (projr (init_clients ((default_core_properties ''core'')\<lparr>thread_count := 2\<rparr>) \<lparr>operation_count = 1, record_count = 3\<rparr> (default_core_props\<lparr>field_count := 1, field_length := 1, insert_order := ''ordered''\<rparr>)))" by simp
  have t: "thread_count ((default_core_properties ''core'')\<lparr>thread_count := 2\<rparr>) \<noteq> 0" by simp
  have "run id (\<lambda>_ _. 0) ([Release] @ replicate 6 (Worker 0) @ replicate 4 (Worker 1) @ [Coord, Coord]) (projr (init_clients ((default_core_properties ''core'')\<lparr>thread_count := 2\<rparr>) \<lparr>operation_count = 1, record_count = 3\<rparr> (default_core_props\<lparr>field_count := 1, field_length := 1, insert_order := ''ordered''\<rparr>))) \<noteq> None" by code_simp
  then obtain y where y: "run id (\<lambda>_ _. 0) ([Release] @ replicate 6 (Worker 0) @ replicate 4 (Worker 1) @ [Coord, Coord]) (projr (init_clients ((default_core_properties ''core'')\<lparr>thread_count := 2\<rparr>) \<lparr>operation_count = 1, record_count = 3\<rparr> (default_core_props\<lparr>field_count := 1, field_length := 1, insert_order := ''ordered''\<rparr>))) = Some y" by blast
  have re: "reach id (\<lambda>_ _. 0) (projr (init_clients ((default_core_properties ''core'')\<lparr>thread_count := 2\<rparr>) \<lparr>operation_count = 1, record_count = 3\<rparr> (default_core_props\<lparr>field_count := 1, field_length := 1, insert_order := ''ordered''\<rparr>))) (the (run id (\<lambda>_ _. 0) ([Release] @ replicate 6 (Worker 0) @ replicate 4 (Worker 1) @ [Coord, Coord]) (projr (init_clients ((default_core_properties ''core'')\<lparr>thread_count := 2\<rparr>) \<lparr>operation_count = 1, record_count = 3\<rparr> (default_core_props\<lparr>field_count := 1, field_length := 1, insert_order := ''ordered''\<rparr>)))))" using run_reach [OF reach_init y] y by simp
  show ?thesis using i t re driver_invariant [OF i t re] by blast
qed

lemma load_phase_complete_witness:
  "init_clients ((default_core_properties ''core'')\<lparr>thread_count := 2\<rparr>) \<lparr>operation_count = 1, record_count = 3\<rparr> (default_core_props\<lparr>field_count := 1, field_length := 1, insert_order := ''ordered''\<rparr>) = Inr (projr (init_clients ((default_core_properties ''core'')\<lparr>thread_count := 2\<rparr>) \<lparr>operation_count = 1, record_count = 3\<rparr> (default_core_props\<lparr>field_count := 1, field_length := 1, insert_order := ''ordered''\<rparr>))) \<and> thread_count ((default_core_properties ''core'')\<lparr>thread_count := 2\<rparr>) \<noteq> 0 \<and> reach id (\<lambda>_ _. 0) (projr (init_clients ((default_core_properties ''core'')\<lparr>thread_count := 2\<rparr>) \<lparr>operation_count = 1, record_count = 3\<rparr> (default_core_props\<lparr>field_count := 1, field_length := 1, insert_order := ''ordered''\<rparr>))) (the (run id (\<lambda>_ _. 0) ([Release] @ replicate 6 (Worker 0) @ replicate 4 (Worker 1) @ [Coord, Coord]) (projr (init_clients ((default_core_properties ''core'')\<lparr>thread_count := 2\<rparr>) \<lparr>operation_count = 1, record_count = 3\<rparr> (default_core_props\<lparr>field_count := 1, field_length := 1, insert_order := ''ordered''\<rparr>))))) \<and> cpc (the (run id (\<lambda>_ _. 0) ([Release] @ replicate 6 (Worker 0) @ replicate 4 (Worker 1) @ [Coord, Coord]) (projr (init_clients ((default_core_properties ''core'')\<lparr>thread_count := 2\<rparr>) \<lparr>operation_count = 1, record_count = 3\<rparr> (default_core_props\<lparr>field_count := 1, field_length := 1, insert_order := ''ordered''\<rparr>))))) = CWait2 \<and>
   sum_list (map progress (workers (the (run id (\<lambda>_ _. 0) ([Release] @ replicate 6 (Worker 0) @ replicate 4 (Worker 1) @ [Coord, Coord]) (projr (init_clients ((default_core_properties ''core'')\<lparr>thread_count := 2\<rparr>) \<lparr>operation_count = 1, record_count = 3\<rparr> (default_core_props\<lparr>field_count := 1, field_length := 1, insert_order := ''ordered''\<rparr>))))))) = record_count \<lparr>operation_count = 1, record_count = 3\<rparr> \<and>
   dom (db (deng (the (run id (\<lambda>_ _. 0) ([Release] @ replicate 6 (Worker 0) @ replicate 4 (Worker 1) @ [Coord, Coord]) (projr (init_clients ((default_core_properties ''core'')\<lparr>thread_count := 2\<rparr>) \<lparr>operation_count = 1, record_count = 3\<rparr> (default_core_props\<lparr>field_count := 1, field_length := 1, insert_order := ''ordered''\<rparr>))))))) =
     (\<lambda>j. build_key id (dwl (the (run id (\<lambda>_ _. 0) ([Release] @ replicate 6 (Worker 0) @ replicate 4 (Worker 1) @ [Coord, Coord]) (projr (init_clients ((default_core_properties ''core'')\<lparr>thread_count := 2\<rparr>) \<lparr>operation_count = 1, record_count = 3\<rparr> (default_core_props\<lparr>field_count := 1, field_length := 1, insert_order := ''ordered''\<rparr>)))))) (insert_start (default_core_props\<lparr>field_count := 1, field_length := 1, insert_order := ''ordered''\<rparr>) + word_of_nat j)) ` {..<unat (record_count \<lparr>operation_count = 1, record_count = 3\<rparr>)}"
proof -
  have "\<not> isl (init_clients ((default_core_properties ''core'')\<lparr>thread_count := 2\<rparr>) \<lparr>operation_count = 1, record_count = 3\<rparr> (default_core_props\<lparr>field_count := 1, field_length := 1, insert_order := ''ordered''\<rparr>))" by code_simp
  then have i: "init_clients ((default_core_properties ''core'')\<lparr>thread_count := 2\<rparr>) \<lparr>operation_count = 1, record_count = 3\<rparr> (default_core_props\<lparr>field_count := 1, field_length := 1, insert_order := ''ordered''\<rparr>) = Inr (projr (init_clients ((default_core_properties ''core'')\<lparr>thread_count := 2\<rparr>) \<lparr>operation_count = 1, record_count = 3\<rparr> (default_core_props\<lparr>field_count := 1, field_length := 1, insert_order := ''ordered''\<rparr>)))" by simp
  have t: "thread_count ((default_core_properties ''core'')\<lparr>thread_count := 2\<rparr>) \<noteq> 0" by simp
  have "run id (\<lambda>_ _. 0) ([Release] @ replicate 6 (Worker 0) @ replicate 4 (Worker 1) @ [Coord, Coord]) (projr (init_clients ((default_core_properties ''core'')\<lparr>thread_count := 2\<rparr>) \<lparr>operation_count = 1, record_count = 3\<rparr> (default_core_props\<lparr>field_count := 1, field_length := 1, insert_order := ''ordered''\<rparr>))) \<noteq> None" by code_simp
  then obtain y where y: "run id (\<lambda>_ _. 0) ([Release] @ replicate 6 (Worker 0) @ replicate 4 (Worker 1) @ [Coord, Coord]) (projr (init_clients ((default_core_properties ''core'')\<lparr>thread_count := 2\<rparr>) \<lparr>operation_count = 1, record_count = 3\<rparr> (default_core_props\<lparr>field_count := 1, field_length := 1, insert_order := ''ordered''\<rparr>))) = Some y" by blast
  have re: "reach id (\<lambda>_ _. 0) (projr (init_clients ((default_core_properties ''core'')\<lparr>thread_count := 2\<rparr>) \<lparr>operation_count = 1, record_count = 3\<rparr> (default_core_props\<lparr>field_count := 1, field_length := 1, insert_order := ''ordered''\<rparr>))) (the (run id (\<lambda>_ _. 0) ([Release] @ replicate 6 (Worker 0) @ replicate 4 (Worker 1) @ [Coord, Coord]) (projr (init_clients ((default_core_properties ''core'')\<lparr>thread_count := 2\<rparr>) \<lparr>operation_count = 1, record_count = 3\<rparr> (default_core_props\<lparr>field_count := 1, field_length := 1, insert_order := ''ordered''\<rparr>)))))" using run_reach [OF reach_init y] y by simp
  have c: "cpc (the (run id (\<lambda>_ _. 0) ([Release] @ replicate 6 (Worker 0) @ replicate 4 (Worker 1) @ [Coord, Coord]) (projr (init_clients ((default_core_properties ''core'')\<lparr>thread_count := 2\<rparr>) \<lparr>operation_count = 1, record_count = 3\<rparr> (default_core_props\<lparr>field_count := 1, field_length := 1, insert_order := ''ordered''\<rparr>))))) = CWait2" by code_simp
  show ?thesis using i t re c load_phase_complete [OF i t re c] by blast
qed

lemma load_phase_distinct_keys_witness:
  "init_clients ((default_core_properties ''core'')\<lparr>thread_count := 2\<rparr>) \<lparr>operation_count = 1, record_count = 3\<rparr> (default_core_props\<lparr>field_count := 1, field_length := 1, insert_order := ''ordered''\<rparr>) = Inr (projr (init_clients ((default_core_properties ''core'')\<lparr>thread_count := 2\<rparr>) \<lparr>operation_count = 1, record_count = 3\<rparr> (default_core_props\<lparr>field_count := 1, field_length := 1, insert_order := ''ordered''\<rparr>))) \<and> thread_count ((default_core_properties ''core'')\<lparr>thread_count := 2\<rparr>) \<noteq> 0 \<and> insert_order (default_core_props\<lparr>field_count := 1, field_length := 1, insert_order := ''ordered''\<rparr>) \<noteq> ''hashed'' \<and>
   unat (insert_start (default_core_props\<lparr>field_count := 1, field_length := 1, insert_order := ''ordered''\<rparr>)) + unat (record_count \<lparr>operation_count = 1, record_count = 3\<rparr>) \<le> 2 ^ 64 \<and>
   reach id (\<lambda>_ _. 0) (projr (init_clients ((default_core_properties ''core'')\<lparr>thread_count := 2\<rparr>) \<lparr>operation_count = 1, record_count = 3\<rparr> (default_core_props\<lparr>field_count := 1, field_length := 1, insert_order := ''ordered''\<rparr>))) (the (run id (\<lambda>_ _. 0) ([Release] @ replicate 6 (Worker 0) @ replicate 4 (Worker 1) @ [Coord, Coord]) (projr (init_clients ((default_core_properties ''core'')\<lparr>thread_count := 2\<rparr>) \<lparr>operation_count = 1, record_count = 3\<rparr> (default_core_props\<lparr>field_count := 1, field_length := 1, insert_order := ''ordered''\<rparr>))))) \<and> cpc (the (run id (\<lambda>_ _. 0) ([Release] @ replicate 6 (Worker 0) @ replicate 4 (Worker 1) @ [Coord, Coord]) (projr (init_clients ((default_core_properties ''core'')\<lparr>thread_count := 2\<rparr>) \<lparr>operation_count = 1, record_count = 3\<rparr> (default_core_props\<lparr>field_count := 1, field_length := 1, insert_order := ''ordered''\<rparr>))))) = CWait2 \<and>
   card (dom (db (deng (the (run id (\<lambda>_ _. 0) ([Release] @ replicate 6 (Worker 0) @ replicate 4 (Worker 1) @ [Coord, Coord]) (projr (init_clients ((default_core_properties ''core'')\<lparr>thread_count := 2\<rparr>) \<lparr>operation_count = 1, record_count = 3\<rparr> (default_core_props\<lparr>field_count := 1, field_length := 1, insert_order := ''ordered''\<rparr>)))))))) = unat (record_count \<lparr>operation_count = 1, record_count = 3\<rparr>)"
proof -
  have "\<not> isl (init_clients ((default_core_properties ''core'')\<lparr>thread_count := 2\<rparr>) \<lparr>operation_count = 1, record_count = 3\<rparr> (default_core_props\<lparr>field_count := 1, field_length := 1, insert_order := ''ordered''\<rparr>))" by code_simp
  then have i: "init_clients ((default_core_properties ''core'')\<lparr>thread_count := 2\<rparr>) \<lparr>operation_count = 1, record_count = 3\<rparr> (default_core_props\<lparr>field_count := 1, field_length := 1, insert_order := ''ordered''\<rparr>) = Inr (projr (init_clients ((default_core_properties ''core'')\<lparr>thread_count := 2\<rparr>) \<lparr>operation_count = 1, record_count = 3\<rparr> (default_core_props\<lparr>field_count := 1, field_length := 1, insert_order := ''ordered''\<rparr>)))" by simp
  have t: "thread_count ((default_core_properties ''core'')\<lparr>thread_count := 2\<rparr>) \<noteq> 0" by simp
  have "run id (\<lambda>_ _. 0) ([Release] @ replicate 6 (Worker 0) @ replicate 4 (Worker 1) @ [Coord, Coord]) (projr (init_clients ((default_core_properties ''core'')\<lparr>thread_count := 2\<rparr>) \<lparr>operation_count = 1, record_count = 3\<rparr> (default_core_props\<lparr>field_count := 1, field_length := 1, insert_order := ''ordered''\<rparr>))) \<noteq> None" by code_simp
  then obtain y where y: "run id (\<lambda>_ _. 0) ([Release] @ replicate 6 (Worker 0) @ replicate 4 (Worker 1) @ [Coord, Coord]) (projr (init_clients ((default_core_properties ''core'')\<lparr>thread_count := 2\<rparr>) \<lparr>operation_count = 1, record_count = 3\<rparr> (default_core_props\<lparr>field_count := 1, field_length := 1, insert_order := ''ordered''\<rparr>))) = Some y" by blast
  have re: "reach id (\<lambda>_ _. 0) (projr (init_clients ((default_core_properties ''core'')\<lparr>thread_count := 2\<rparr>) \<lparr>operation_count = 1, record_count = 3\<rparr> (default_core_props\<lparr>field_count := 1, field_length := 1, insert_order := ''ordered''\<rparr>))) (the (run id (\<lambda>_ _. 0) ([Release] @ replicate 6 (Worker 0) @ replicate 4 (Worker 1) @ [Coord, Coord]) (projr (init_clients ((default_core_properties ''core'')\<lparr>thread_count := 2\<rparr>) \<lparr>operation_count = 1, record_count = 3\<rparr> (default_core_props\<lparr>field_count := 1, field_length := 1, insert_order := ''ordered''\<rparr>)))))" using run_reach [OF reach_init y] y by simp
  have c: "cpc (the (run id (\<lambda>_ _. 0) ([Release] @ replicate 6 (Worker 0) @ replicate 4 (Worker 1) @ [Coord, Coord]) (projr (init_clients ((default_core_properties ''core'')\<lparr>thread_count := 2\<rparr>) \<lparr>operation_count = 1, record_count = 3\<rparr> (default_core_props\<lparr>field_count := 1, field_length := 1, insert_order := ''ordered''\<rparr>))))) = CWait2" by code_simp
  have o: "insert_order (default_core_props\<lparr>field_count := 1, field_length := 1, insert_order := ''ordered''\<rparr>) \<noteq> ''hashed''" by simp
  have b: "unat (insert_start (default_core_props\<lparr>field_count := 1, field_length := 1, insert_order := ''ordered''\<rparr>)) + unat (record_count \<lparr>operation_count = 1, record_count = 3\<rparr>) \<le> 2 ^ 64" by (simp add: default_core_props_def)
  show ?thesis using i t o b re c load_phase_distinct_keys [OF i t o b re c] by blast
qed

end
