(* ===== verification/Driver_Liveness.thy ===== *)
theory Driver_Liveness
  imports Driver_Invariant
begin

text \<open>
  That the driver can finish: a schedule built from the configuration that
  runs each worker's load phase in turn, one poll of the load report, the
  barrier, each worker's run phase, one poll of the run report, the barrier
  and the joins.  The per-worker blocks are loops proved by induction on the
  inserts or operations left; the invariant of \<open>Driver_Invariant\<close> carries
  the fact that no insert panics and that the reports' sums reach their
  targets.
\<close>

text \<open>The variant: the worker steps each worker has left before it exits.\<close>

definition wleft :: "u64 \<Rightarrow> u64 \<Rightarrow> u32 \<Rightarrow> nat \<Rightarrow> worker \<Rightarrow> nat" where
  "wleft R Ops tc i wk =
     (case wpc wk of
        WWait1 \<Rightarrow> 2 * share R tc i + share Ops tc i + 4
      | WSetup \<Rightarrow> 2 * share R tc i + share Ops tc i + 4
      | WLoad \<Rightarrow> 2 * todo wk + share Ops tc i + 3
      | WLoadInc \<Rightarrow> 2 * todo wk + share Ops tc i + 2
      | WWait2 \<Rightarrow> share Ops tc i + 2
      | WReset \<Rightarrow> share Ops tc i + 2
      | WBench \<Rightarrow> todo wk + 1
      | _ \<Rightarrow> 0)"

definition steps_left :: "driver \<Rightarrow> nat" where
  "steps_left s = (\<Sum>i<length (workers s). wleft (record_count (dcp s)) (operation_count (dcp s)) (dtc s) i (workers s ! i))"

fun is_worker_event :: "event \<Rightarrow> bool" where
  "is_worker_event (Worker i) = True"
| "is_worker_event _ = False"

lemma run_append:
  "run hash rng (xs @ ys) s = (case run hash rng xs s of None \<Rightarrow> None | Some s' \<Rightarrow> run hash rng ys s')"
  by (induction xs arbitrary: s) (simp_all split: option.split)

lemma run_replicate_Suc:
  "run hash rng (replicate (Suc k) ev) s =
     (case drv_step hash rng ev s of None \<Rightarrow> None | Some s' \<Rightarrow> run hash rng (replicate k ev) s')"
  by simp

text \<open>Worker \<open>i\<close> in its insert loop with \<open>k\<close> inserts left runs to the second barrier.\<close>

lemma load_loop_steps:
  assumes "drv_inv hash s" "cpc s = CLoad" "i < length (workers s)"
    "wpc (workers s ! i) = WLoad" "todo (workers s ! i) = k"
  shows "\<exists>s'. run hash rng (replicate (2 * k + 1) (Worker i)) s = Some s' \<and> drv_inv hash s' \<and>
           cpc s' = CLoad \<and> length (workers s') = length (workers s) \<and> wpc (workers s' ! i) = WWait2 \<and>
           (\<forall>j. j \<noteq> i \<longrightarrow> workers s' ! j = workers s ! j)"
  using assms
proof (induction k arbitrary: s)
  case 0
  let ?s' = "s\<lparr>workers := (workers s)[i := (workers s ! i)\<lparr>wpc := WWait2, ins_end := clock s\<rparr>], clock := Suc (clock s)\<rparr>"
  have st: "drv_step hash rng (Worker i) s = Some ?s'" using 0 by (simp add: drv_step_def worker_step_def Let_def)
  have "drv_inv hash ?s'" by (rule drv_step_inv [OF "0.prems"(1) st])
  then show ?case using st 0 by simp
next
  case (Suc k)
  let ?wk = "workers s ! i"
  let ?st = "\<lparr>keys = dkeys s, eng = deng s, hdl = whdl ?wk, rng_pos = wpos ?wk\<rparr>"
  have wf: "engine_wf (eng ?st)" using Suc.prems(1) by (simp add: drv_inv_def)
  obtain st' where d: "do_insert hash (dwl s) (rng i) ?st = Inr st'"
    using do_insert_any_handle [OF wf, of hash "dwl s" "rng i"] by blast
  define s1 where "s1 = s\<lparr>workers := (workers s)[i := ?wk\<lparr>wpc := WLoadInc, whdl := hdl st', wpos := rng_pos st'\<rparr>],
                         dkeys := keys st', deng := eng st', clock := Suc (clock s)\<rparr>"
  have st1: "drv_step hash rng (Worker i) s = Some s1" using Suc.prems d by (simp add: drv_step_def worker_step_def Let_def s1_def)
  have i1: "drv_inv hash s1" by (rule drv_step_inv [OF Suc.prems(1) st1])
  define s2 where "s2 = s1\<lparr>workers := (workers s1)[i := (workers s1 ! i)\<lparr>wpc := WLoad, todo := todo (workers s1 ! i) - 1,
                          progress := progress (workers s1 ! i) + 1\<rparr>], clock := Suc (clock s1)\<rparr>"
  have st2: "drv_step hash rng (Worker i) s1 = Some s2" using Suc.prems by (simp add: drv_step_def worker_step_def Let_def s1_def s2_def)
  have i2: "drv_inv hash s2" by (rule drv_step_inv [OF i1 st2])
  have p2: "cpc s2 = CLoad" "i < length (workers s2)" "wpc (workers s2 ! i) = WLoad" "todo (workers s2 ! i) = k"
    using Suc.prems by (simp_all add: s1_def s2_def)
  obtain s' where s': "run hash rng (replicate (2 * k + 1) (Worker i)) s2 = Some s'" "drv_inv hash s'"
      "cpc s' = CLoad" "length (workers s') = length (workers s2)" "wpc (workers s' ! i) = WWait2"
      "\<forall>j. j \<noteq> i \<longrightarrow> workers s' ! j = workers s2 ! j"
    using Suc.IH [OF i2 p2] by blast
  have "replicate (2 * Suc k + 1) (Worker i) = Worker i # Worker i # replicate (2 * k + 1) (Worker i)" by simp
  then have "run hash rng (replicate (2 * Suc k + 1) (Worker i)) s = Some s'"
    using st1 st2 s'(1) by simp
  moreover have "length (workers s') = length (workers s)" "\<forall>j. j \<noteq> i \<longrightarrow> workers s' ! j = workers s ! j"
    using s'(4,6) by (simp_all add: s1_def s2_def)
  ultimately show ?case using s' by blast
qed

lemma run_frame:
  "run hash rng evs s = Some s' \<Longrightarrow>
   length (workers s') = length (workers s) \<and> dtc s' = dtc s \<and> dwl s' = dwl s \<and> dcp s' = dcp s"
proof (induction evs arbitrary: s)
  case Nil
  then show ?case by simp
next
  case (Cons ev evs)
  then obtain s1 where "drv_step hash rng ev s = Some s1" "run hash rng evs s1 = Some s'"
    by (auto split: option.splits)
  then show ?case using Cons.IH drv_step_frame by metis
qed

lemma bench_loop_steps:
  assumes "drv_inv hash s" "cpc s = CRun" "i < length (workers s)"
    "wpc (workers s ! i) = WBench" "todo (workers s ! i) = k"
  shows "\<exists>s'. run hash rng (replicate (k + 1) (Worker i)) s = Some s' \<and> drv_inv hash s' \<and>
           cpc s' = CRun \<and> length (workers s') = length (workers s) \<and> wpc (workers s' ! i) = WWait3 \<and>
           (\<forall>j. j \<noteq> i \<longrightarrow> workers s' ! j = workers s ! j)"
  using assms
proof (induction k arbitrary: s)
  case 0
  let ?s' = "s\<lparr>workers := (workers s)[i := (workers s ! i)\<lparr>wpc := WWait3, bench_end := clock s\<rparr>], clock := Suc (clock s)\<rparr>"
  have st: "drv_step hash rng (Worker i) s = Some ?s'" using 0 by (simp add: drv_step_def worker_step_def Let_def)
  have "drv_inv hash ?s'" by (rule drv_step_inv [OF "0.prems"(1) st])
  then show ?case using st 0 by simp
next
  case (Suc k)
  define s1 where "s1 = s\<lparr>workers := (workers s)[i := (workers s ! i)\<lparr>todo := todo (workers s ! i) - 1,
                          progress := progress (workers s ! i) + 1\<rparr>], clock := Suc (clock s)\<rparr>"
  have st1: "drv_step hash rng (Worker i) s = Some s1" using Suc.prems by (simp add: drv_step_def worker_step_def Let_def s1_def)
  have i1: "drv_inv hash s1" by (rule drv_step_inv [OF Suc.prems(1) st1])
  have p1: "cpc s1 = CRun" "i < length (workers s1)" "wpc (workers s1 ! i) = WBench" "todo (workers s1 ! i) = k"
    using Suc.prems by (simp_all add: s1_def)
  obtain s' where s': "run hash rng (replicate (k + 1) (Worker i)) s1 = Some s'" "drv_inv hash s'"
      "cpc s' = CRun" "length (workers s') = length (workers s1)" "wpc (workers s' ! i) = WWait3"
      "\<forall>j. j \<noteq> i \<longrightarrow> workers s' ! j = workers s1 ! j"
    using Suc.IH [OF i1 p1] by blast
  have "run hash rng (replicate (Suc k + 1) (Worker i)) s = Some s'"
    using st1 s'(1) by simp
  moreover have "length (workers s') = length (workers s)" "\<forall>j. j \<noteq> i \<longrightarrow> workers s' ! j = workers s ! j"
    using s'(4,6) by (simp_all add: s1_def)
  ultimately show ?case using s' by blast
qed

text \<open>One worker's whole load phase, from the first barrier to the second.\<close>

lemma load_block:
  assumes inv: "drv_inv hash s" and c: "cpc s = CLoad" and i: "i < length (workers s)"
    and p: "wpc (workers s ! i) = WSetup"
  shows "\<exists>s'. run hash rng (replicate (2 * share (record_count (dcp s)) (dtc s) i + 2) (Worker i)) s = Some s' \<and>
           drv_inv hash s' \<and> cpc s' = CLoad \<and> length (workers s') = length (workers s) \<and>
           wpc (workers s' ! i) = WWait2 \<and> (\<forall>j. j \<noteq> i \<longrightarrow> workers s' ! j = workers s ! j)"
proof -
  let ?k = "share (record_count (dcp s)) (dtc s) i"
  have tc: "dtc s \<noteq> 0" and il: "i < unat (dtc s)" using inv i by (simp_all add: drv_inv_def)
  obtain cnt where cnt: "partition_count (record_count (dcp s)) (word_of_nat i) (dtc s) = Inr cnt" "unat cnt = ?k"
    using partition_count_share [OF tc il] by blast
  define s1 where "s1 = s\<lparr>workers := (workers s)[i := (workers s ! i)\<lparr>wpc := WLoad, todo := unat cnt\<rparr>], clock := Suc (clock s)\<rparr>"
  have st1: "drv_step hash rng (Worker i) s = Some s1" using i p cnt by (simp add: drv_step_def worker_step_def Let_def s1_def)
  have i1: "drv_inv hash s1" by (rule drv_step_inv [OF inv st1])
  have p1: "cpc s1 = CLoad" "i < length (workers s1)" "wpc (workers s1 ! i) = WLoad" "todo (workers s1 ! i) = ?k"
    using c i cnt by (simp_all add: s1_def)
  obtain s' where s': "run hash rng (replicate (2 * ?k + 1) (Worker i)) s1 = Some s'" "drv_inv hash s'"
      "cpc s' = CLoad" "length (workers s') = length (workers s1)" "wpc (workers s' ! i) = WWait2"
      "\<forall>j. j \<noteq> i \<longrightarrow> workers s' ! j = workers s1 ! j"
    using load_loop_steps [OF i1 p1] by blast
  have "run hash rng (replicate (2 * ?k + 2) (Worker i)) s = Some s'"
    using st1 s'(1) by simp
  moreover have "length (workers s') = length (workers s)" "\<forall>j. j \<noteq> i \<longrightarrow> workers s' ! j = workers s ! j"
    using s'(4,6) by (simp_all add: s1_def)
  ultimately show ?thesis using s' by blast
qed

text \<open>One worker's whole run phase, from the second barrier to the third.\<close>

lemma bench_block:
  assumes inv: "drv_inv hash s" and c: "cpc s = CRun" and i: "i < length (workers s)"
    and p: "wpc (workers s ! i) = WReset"
  shows "\<exists>s'. run hash rng (replicate (share (operation_count (dcp s)) (dtc s) i + 2) (Worker i)) s = Some s' \<and>
           drv_inv hash s' \<and> cpc s' = CRun \<and> length (workers s') = length (workers s) \<and>
           wpc (workers s' ! i) = WWait3 \<and> (\<forall>j. j \<noteq> i \<longrightarrow> workers s' ! j = workers s ! j)"
proof -
  let ?k = "share (operation_count (dcp s)) (dtc s) i"
  have tc: "dtc s \<noteq> 0" and il: "i < unat (dtc s)" using inv i by (simp_all add: drv_inv_def)
  obtain cnt where cnt: "partition_count (operation_count (dcp s)) (word_of_nat i) (dtc s) = Inr cnt" "unat cnt = ?k"
    using partition_count_share [OF tc il] by blast
  define s1 where "s1 = s\<lparr>workers := (workers s)[i := (workers s ! i)\<lparr>wpc := WBench, todo := unat cnt, progress := 0\<rparr>], clock := Suc (clock s)\<rparr>"
  have st1: "drv_step hash rng (Worker i) s = Some s1" using i p cnt by (simp add: drv_step_def worker_step_def Let_def s1_def)
  have i1: "drv_inv hash s1" by (rule drv_step_inv [OF inv st1])
  have p1: "cpc s1 = CRun" "i < length (workers s1)" "wpc (workers s1 ! i) = WBench" "todo (workers s1 ! i) = ?k"
    using c i cnt by (simp_all add: s1_def)
  obtain s' where s': "run hash rng (replicate (?k + 1) (Worker i)) s1 = Some s'" "drv_inv hash s'"
      "cpc s' = CRun" "length (workers s') = length (workers s1)" "wpc (workers s' ! i) = WWait3"
      "\<forall>j. j \<noteq> i \<longrightarrow> workers s' ! j = workers s1 ! j"
    using bench_loop_steps [OF i1 p1] by blast
  have "run hash rng (replicate (?k + 2) (Worker i)) s = Some s'"
    using st1 s'(1) by simp
  moreover have "length (workers s') = length (workers s)" "\<forall>j. j \<noteq> i \<longrightarrow> workers s' ! j = workers s ! j"
    using s'(4,6) by (simp_all add: s1_def)
  ultimately show ?thesis using s' by blast
qed

lemma blocks_fold:
  assumes block: "\<And>s i. drv_inv hash s \<Longrightarrow> cpc s = c \<Longrightarrow> dcp s = D \<Longrightarrow> dtc s = T \<Longrightarrow> i < length (workers s) \<Longrightarrow>
      wpc (workers s ! i) = p \<Longrightarrow>
      \<exists>s'. run hash rng (replicate (f i) (Worker i)) s = Some s' \<and> drv_inv hash s' \<and> cpc s' = c \<and>
           length (workers s') = length (workers s) \<and> wpc (workers s' ! i) = q \<and>
           (\<forall>j. j \<noteq> i \<longrightarrow> workers s' ! j = workers s ! j)"
  shows "drv_inv hash s \<Longrightarrow> cpc s = c \<Longrightarrow> dcp s = D \<Longrightarrow> dtc s = T \<Longrightarrow> length (workers s) = n \<Longrightarrow> m \<le> n \<Longrightarrow>
     \<forall>j<n. wpc (workers s ! j) = (if j < m then q else p) \<Longrightarrow>
     \<exists>s'. run hash rng (concat (map (\<lambda>i. replicate (f i) (Worker i)) [m..<n])) s = Some s' \<and> drv_inv hash s' \<and>
          cpc s' = c \<and> dcp s' = D \<and> dtc s' = T \<and> length (workers s') = n \<and> (\<forall>j<n. wpc (workers s' ! j) = q)"
proof (induction "n - m" arbitrary: s m)
  case 0
  then have "m = n" by simp
  then show ?case using "0.prems" by auto
next
  case (Suc d)
  have mn: "m < n" using Suc.hyps(2) by simp
  have pm: "wpc (workers s ! m) = p" using Suc.prems(7) mn by simp
  obtain s1 where s1: "run hash rng (replicate (f m) (Worker m)) s = Some s1" "drv_inv hash s1" "cpc s1 = c"
      "length (workers s1) = length (workers s)" "wpc (workers s1 ! m) = q"
      "\<forall>j. j \<noteq> m \<longrightarrow> workers s1 ! j = workers s ! j"
    using block [OF Suc.prems(1-4), of m] pm mn Suc.prems(5) by blast
  have fr: "dcp s1 = D" "dtc s1 = T" using run_frame [OF s1(1)] Suc.prems(3,4) by simp_all
  have all: "\<forall>j<n. wpc (workers s1 ! j) = (if j < Suc m then q else p)"
  proof (intro allI impI)
    fix j assume j: "j < n"
    show "wpc (workers s1 ! j) = (if j < Suc m then q else p)"
    proof (cases "j = m")
      case True
      then show ?thesis using s1(5) by simp
    next
      case False
      then show ?thesis using Suc.prems(7) s1(6) j by auto
    qed
  qed
  obtain s' where s': "run hash rng (concat (map (\<lambda>i. replicate (f i) (Worker i)) [Suc m..<n])) s1 = Some s'"
      "drv_inv hash s'" "cpc s' = c" "dcp s' = D" "dtc s' = T" "length (workers s') = n" "\<forall>j<n. wpc (workers s' ! j) = q"
  proof -
    have h: "d = n - Suc m" using Suc.hyps(2) by simp
    have l: "length (workers s1) = n" using s1(4) Suc.prems(5) by simp
    have sm: "Suc m \<le> n" using mn by simp
    show ?thesis using Suc.hyps(1) [OF h s1(2,3) fr l sm all] that by blast
  qed
  have "[m..<n] = m # [Suc m..<n]" using mn by (simp add: upt_conv_Cons)
  then have "run hash rng (concat (map (\<lambda>i. replicate (f i) (Worker i)) [m..<n])) s = Some s'"
    using s1(1) s'(1) by (simp add: run_append)
  then show ?case using s' by blast
qed

lemma run_workers_frame:
  "\<forall>ev \<in> set evs. is_worker_event ev \<Longrightarrow> run hash rng evs s = Some s' \<Longrightarrow>
   start_time s' = start_time s \<and> insert_time s' = insert_time s"
proof (induction evs arbitrary: s)
  case Nil
  then show ?case by simp
next
  case (Cons ev evs)
  obtain i where ev: "ev = Worker i" using Cons.prems(1) by (cases ev) auto
  obtain s1 where s1: "worker_step hash rng i s = Some s1" "run hash rng evs (s1\<lparr>clock := Suc (clock s)\<rparr>) = Some s'"
    using Cons.prems(2) ev by (auto simp: drv_step_def split: option.splits)
  show ?case using Cons.IH [OF _ s1(2)] Cons.prems(1) worker_step_frame [OF s1(1)] by simp
qed

lemma join_steps:
  "cpc s = CJoin j \<Longrightarrow> j \<le> length (workers s) \<Longrightarrow> \<forall>k<length (workers s). wpc (workers s ! k) = WExit \<Longrightarrow>
   \<exists>s'. run hash rng (replicate (length (workers s) - j + 1) Coord) s = Some s' \<and> cpc s' = CDone"
proof (induction "length (workers s) - j" arbitrary: s j)
  case 0
  then have "j = length (workers s)" by simp
  then show ?case using "0.prems" by (simp add: drv_step_def coord_step_def)
next
  case (Suc d)
  let ?s1 = "s\<lparr>cpc := CJoin (Suc j), clock := Suc (clock s)\<rparr>"
  have st: "drv_step hash rng Coord s = Some ?s1" using Suc.prems Suc.hyps(2) by (simp add: drv_step_def coord_step_def)
  have h: "d = length (workers ?s1) - Suc j" using Suc.hyps(2) by simp
  have p1: "cpc ?s1 = CJoin (Suc j)" "Suc j \<le> length (workers ?s1)"
      "\<forall>k<length (workers ?s1). wpc (workers ?s1 ! k) = WExit"
    using Suc.hyps(2) Suc.prems(3) by simp_all
  obtain s' where "run hash rng (replicate (length (workers ?s1) - Suc j + 1) Coord) ?s1 = Some s'" "cpc s' = CDone"
    using Suc.hyps(1) [OF h p1] by blast
  moreover have "length (workers s) - j + 1 = Suc (length (workers ?s1) - Suc j + 1)" using Suc.hyps(2) by simp
  ultimately show ?case using st by (simp only: run_replicate_Suc) simp
qed


lemma release_all:
  assumes "\<forall>j < length (workers s). wpc (workers s ! j) = p"
  shows "cpc s = CWait1 \<Longrightarrow> p = WWait1 \<Longrightarrow>
           release s = Some (s\<lparr>cpc := CLoad, prev_pct := 0, workers := map (\<lambda>wk. wk\<lparr>wpc := WSetup\<rparr>) (workers s)\<rparr>)"
    and "cpc s = CWait2 \<Longrightarrow> p = WWait2 \<Longrightarrow>
           release s = Some (s\<lparr>cpc := CRun, prev_pct := 0, workers := map (\<lambda>wk. wk\<lparr>wpc := WReset\<rparr>) (workers s)\<rparr>)"
    and "cpc s = CWait3 \<Longrightarrow> p = WWait3 \<Longrightarrow>
           release s = Some (s\<lparr>cpc := CJoin 0, workers := map (\<lambda>wk. wk\<lparr>wpc := WExit\<rparr>) (workers s)\<rparr>)"
  using assms by (simp_all add: release_def list_all_length)

lemma poll_exits:
  "count \<noteq> 0 \<Longrightarrow> sum_list (map progress (workers s)) = count \<Longrightarrow>
   \<exists>q. poll count next s = s\<lparr>cpc := next, prev_pct := q\<rparr>"
proof -
  assume c: "count \<noteq> 0" and p: "sum_list (map progress (workers s)) = count"
  let ?pct = "count * 100 div count"
  show ?thesis
  proof (cases "prev_pct s = ?pct")
    case True
    then show ?thesis using c p by (intro exI [of _ "prev_pct s"]) (simp add: poll_def Let_def)
  next
    case False
    then show ?thesis using c p by (intro exI [of _ ?pct]) (simp add: poll_def Let_def)
  qed
qed

lemma load_phase_schedule:
  assumes inv: "drv_inv hash s" and c: "cpc s = CWait1" and w: "\<forall>j < length (workers s). wpc (workers s ! j) = WWait1"
    and r: "record_count (dcp s) \<noteq> 0" and t0: "start_time s = None"
  shows "\<exists>evs s'. run hash rng evs s = Some s' \<and> drv_inv hash s' \<and> cpc s' = CWait2 \<and>
           dcp s' = dcp s \<and> dtc s' = dtc s \<and> length (workers s') = length (workers s) \<and>
           (\<forall>j < length (workers s'). wpc (workers s' ! j) = WWait2) \<and> insert_time s' = insert_time s"
proof -
  let ?R = "record_count (dcp s)" and ?tc = "dtc s" and ?n = "length (workers s)"
  define s1 where "s1 = s\<lparr>cpc := CLoad, prev_pct := 0, workers := map (\<lambda>wk. wk\<lparr>wpc := WSetup\<rparr>) (workers s),
                         clock := Suc (clock s)\<rparr>"
  have st1: "drv_step hash rng Release s = Some s1" using release_all(1) [OF w c] by (simp add: drv_step_def s1_def)
  have i1: "drv_inv hash s1" by (rule drv_step_inv [OF inv st1])
  have p1: "cpc s1 = CLoad" "dcp s1 = dcp s" "dtc s1 = ?tc" "length (workers s1) = ?n"
      "\<forall>j<?n. wpc (workers s1 ! j) = (if j < 0 then WWait2 else WSetup)"
    by (simp_all add: s1_def)
  have block: "\<exists>s''. run hash rng (replicate (2 * share ?R ?tc i + 2) (Worker i)) s' = Some s'' \<and>
      drv_inv hash s'' \<and> cpc s'' = CLoad \<and> length (workers s'') = length (workers s') \<and>
      wpc (workers s'' ! i) = WWait2 \<and> (\<forall>j. j \<noteq> i \<longrightarrow> workers s'' ! j = workers s' ! j)"
    if a: "drv_inv hash s'" "cpc s' = CLoad" "dcp s' = dcp s" "dtc s' = ?tc" "i < length (workers s')"
      "wpc (workers s' ! i) = WSetup" for s' i
    using load_block [OF a(1,2,5,6), of rng] a(3,4) by simp
  obtain s2 where s2: "run hash rng (concat (map (\<lambda>i. replicate (2 * share ?R ?tc i + 2) (Worker i)) [0..<?n])) s1 = Some s2"
      "drv_inv hash s2" "cpc s2 = CLoad" "dcp s2 = dcp s" "dtc s2 = ?tc" "length (workers s2) = ?n"
      "\<forall>j<?n. wpc (workers s2 ! j) = WWait2"
    using blocks_fold [OF block i1 p1(1-4) le0 p1(5)] by blast
  have tc: "?tc \<noteq> 0" and n: "?n = unat ?tc" using inv by (simp_all add: drv_inv_def)
  have pr: "\<forall>j < length (workers s2). unat (progress (workers s2 ! j)) = share ?R ?tc j"
    using s2(2,4,5,6,7) by (auto simp: drv_inv_def worker_inv_def)
  have sum: "sum_list (map progress (workers s2)) = ?R"
    using progress_sum_shares [OF tc _ pr] s2(6) n by simp
  have f2: "start_time s2 = None" "insert_time s2 = insert_time s"
    using run_workers_frame [OF _ s2(1)] t0 by (simp_all add: s1_def)
  define s3 where "s3 = s2\<lparr>start_time := Some (clock s2), clock := Suc (clock s2)\<rparr>"
  have st3: "drv_step hash rng Coord s2 = Some s3" using s2(3) f2 by (simp add: drv_step_def coord_step_def s3_def)
  have sum3: "sum_list (map progress (workers s3)) = ?R" using sum by (simp add: s3_def)
  obtain q where q: "poll ?R CWait2 s3 = s3\<lparr>cpc := CWait2, prev_pct := q\<rparr>"
    using poll_exits [OF r sum3] by blast
  define s4 where "s4 = s3\<lparr>cpc := CWait2, prev_pct := q, clock := Suc (clock s3)\<rparr>"
  have st4: "drv_step hash rng Coord s3 = Some s4" using s2(3,4) q by (simp add: drv_step_def coord_step_def s3_def s4_def)
  have i4: "drv_inv hash s4" by (rule drv_step_inv [OF drv_step_inv [OF s2(2) st3] st4])
  have "run hash rng ([Release] @ concat (map (\<lambda>i. replicate (2 * share ?R ?tc i + 2) (Worker i)) [0..<?n]) @ [Coord, Coord]) s = Some s4"
    using st1 s2(1) st3 st4 by (simp add: run_append)
  moreover have "cpc s4 = CWait2" "dcp s4 = dcp s" "dtc s4 = ?tc" "length (workers s4) = ?n"
      "\<forall>j < length (workers s4). wpc (workers s4 ! j) = WWait2" "insert_time s4 = insert_time s"
    using s2 f2 by (simp_all add: s3_def s4_def)
  ultimately show ?thesis using i4 by blast
qed

lemma run_phase_schedule:
  assumes inv: "drv_inv hash s" and c: "cpc s = CWait2" and w: "\<forall>j < length (workers s). wpc (workers s ! j) = WWait2"
    and o: "operation_count (dcp s) \<noteq> 0" and t0: "insert_time s = None"
  shows "\<exists>evs s'. run hash rng evs s = Some s' \<and> cpc s' = CWait3 \<and> length (workers s') = length (workers s) \<and>
           (\<forall>j < length (workers s'). wpc (workers s' ! j) = WWait3)"
proof -
  let ?O = "operation_count (dcp s)" and ?tc = "dtc s" and ?n = "length (workers s)"
  define s1 where "s1 = s\<lparr>cpc := CRun, prev_pct := 0, workers := map (\<lambda>wk. wk\<lparr>wpc := WReset\<rparr>) (workers s),
                         clock := Suc (clock s)\<rparr>"
  have st1: "drv_step hash rng Release s = Some s1" using release_all(2) [OF w c] by (simp add: drv_step_def s1_def)
  have i1: "drv_inv hash s1" by (rule drv_step_inv [OF inv st1])
  have p1: "cpc s1 = CRun" "dcp s1 = dcp s" "dtc s1 = ?tc" "length (workers s1) = ?n"
      "\<forall>j<?n. wpc (workers s1 ! j) = (if j < 0 then WWait3 else WReset)"
    by (simp_all add: s1_def)
  have block: "\<exists>s''. run hash rng (replicate (share ?O ?tc i + 2) (Worker i)) s' = Some s'' \<and>
      drv_inv hash s'' \<and> cpc s'' = CRun \<and> length (workers s'') = length (workers s') \<and>
      wpc (workers s'' ! i) = WWait3 \<and> (\<forall>j. j \<noteq> i \<longrightarrow> workers s'' ! j = workers s' ! j)"
    if a: "drv_inv hash s'" "cpc s' = CRun" "dcp s' = dcp s" "dtc s' = ?tc" "i < length (workers s')"
      "wpc (workers s' ! i) = WReset" for s' i
    using bench_block [OF a(1,2,5,6), of rng] a(3,4) by simp
  obtain s2 where s2: "run hash rng (concat (map (\<lambda>i. replicate (share ?O ?tc i + 2) (Worker i)) [0..<?n])) s1 = Some s2"
      "drv_inv hash s2" "cpc s2 = CRun" "dcp s2 = dcp s" "dtc s2 = ?tc" "length (workers s2) = ?n"
      "\<forall>j<?n. wpc (workers s2 ! j) = WWait3"
    using blocks_fold [OF block i1 p1(1-4) le0 p1(5)] by blast
  have tc: "?tc \<noteq> 0" and n: "?n = unat ?tc" using inv by (simp_all add: drv_inv_def)
  have pr: "\<forall>j < length (workers s2). unat (progress (workers s2 ! j)) = share ?O ?tc j"
    using s2(2,4,5,6,7) by (auto simp: drv_inv_def worker_inv_def)
  have sum: "sum_list (map progress (workers s2)) = ?O"
    using progress_sum_shares [OF tc _ pr] s2(6) n by simp
  have f2: "insert_time s2 = None" using run_workers_frame [OF _ s2(1)] t0 by (simp add: s1_def)
  have ne: "workers s2 \<noteq> []" using s2(6) n tc by (auto simp: unat_eq_zero)
  define s3 where "s3 = s2\<lparr>insert_time := Some (Max (set (map ins_end (workers s2))) - the (start_time s2)),
                         clock := Suc (clock s2)\<rparr>"
  have st3: "drv_step hash rng Coord s2 = Some s3" using s2(3) f2 ne by (simp add: drv_step_def coord_step_def s3_def)
  have sum3: "sum_list (map progress (workers s3)) = ?O" using sum by (simp add: s3_def)
  obtain q where q: "poll ?O CWait3 s3 = s3\<lparr>cpc := CWait3, prev_pct := q\<rparr>"
    using poll_exits [OF o sum3] by blast
  have st4: "drv_step hash rng Coord s3 = Some (s3\<lparr>cpc := CWait3, prev_pct := q, clock := Suc (clock s3)\<rparr>)"
    using s2(3,4) q by (simp add: drv_step_def coord_step_def s3_def)
  have "run hash rng ([Release] @ concat (map (\<lambda>i. replicate (share ?O ?tc i + 2) (Worker i)) [0..<?n]) @ [Coord, Coord]) s =
        Some (s3\<lparr>cpc := CWait3, prev_pct := q, clock := Suc (clock s3)\<rparr>)"
    using st1 s2(1) st3 st4 by (simp add: run_append)
  then show ?thesis using s2(6,7) by (fastforce simp: s3_def)
qed

lemma finish_schedule:
  assumes c: "cpc s = CWait3" and w: "\<forall>j < length (workers s). wpc (workers s ! j) = WWait3"
  shows "\<exists>evs s'. run hash rng evs s = Some s' \<and> cpc s' = CDone"
proof -
  define s1 where "s1 = s\<lparr>cpc := CJoin 0, workers := map (\<lambda>wk. wk\<lparr>wpc := WExit\<rparr>) (workers s), clock := Suc (clock s)\<rparr>"
  have st1: "drv_step hash rng Release s = Some s1" using release_all(3) [OF w c] by (simp add: drv_step_def s1_def)
  have p1: "cpc s1 = CJoin 0" "0 \<le> length (workers s1)" "\<forall>k<length (workers s1). wpc (workers s1 ! k) = WExit"
    by (simp_all add: s1_def)
  obtain s' where s': "run hash rng (replicate (length (workers s1) - 0 + 1) Coord) s1 = Some s'" "cpc s' = CDone"
    using join_steps [OF p1] by blast
  have "run hash rng (Release # replicate (length (workers s1) - 0 + 1) Coord) s = Some s'"
    using st1 s'(1) by simp
  then show ?thesis using s'(2) by blast
qed

lemma worker_step_left:
  assumes inv: "drv_inv hash s" and st: "worker_step hash rng i s = Some s'"
  shows "Suc (steps_left s') = steps_left s"
proof -
  let ?R = "record_count (dcp s)" and ?O = "operation_count (dcp s)" and ?tc = "dtc s"
  define wk where "wk = workers s ! i"
  have i: "i < length (workers s)" using st by (simp add: worker_step_def split: if_splits)
  have wi: "worker_inv ?R ?O ?tc i wk" using inv i by (simp add: drv_inv_def wk_def)
  have tc: "?tc \<noteq> 0" and il: "i < unat ?tc" using inv i by (simp_all add: drv_inv_def)
  obtain wk' where s': "workers s' = (workers s)[i := wk']" "dcp s' = dcp s" "dtc s' = dtc s"
      and dec: "Suc (wleft ?R ?O ?tc i wk') = wleft ?R ?O ?tc i wk"
  proof (cases "wpc wk")
    case WSetup
    obtain c where c: "partition_count ?R (word_of_nat i) ?tc = Inr c" "unat c = share ?R ?tc i"
      using partition_count_share [OF tc il] by blast
    have e: "s' = s\<lparr>workers := (workers s)[i := wk\<lparr>wpc := WLoad, todo := unat c\<rparr>]\<rparr>"
      using st i WSetup c by (simp add: worker_step_def wk_def Let_def)
    show ?thesis
      by (rule that [of "wk\<lparr>wpc := WLoad, todo := unat c\<rparr>"]) (use WSetup c in \<open>simp_all add: e wleft_def\<close>)
  next
    case WLoad
    show ?thesis
    proof (cases "todo wk = 0")
      case True
      have e: "s' = s\<lparr>workers := (workers s)[i := wk\<lparr>wpc := WWait2, ins_end := clock s\<rparr>]\<rparr>"
        using st i WLoad True by (simp add: worker_step_def wk_def Let_def)
      show ?thesis
        by (rule that [of "wk\<lparr>wpc := WWait2, ins_end := clock s\<rparr>"]) (use WLoad True in \<open>simp_all add: e wleft_def\<close>)
    next
      case False
      let ?st = "\<lparr>keys = dkeys s, eng = deng s, hdl = whdl wk, rng_pos = wpos wk\<rparr>"
      have wf: "engine_wf (eng ?st)" using inv by (simp add: drv_inv_def)
      obtain st' where d: "do_insert hash (dwl s) (rng i) ?st = Inr st'"
        using do_insert_any_handle [OF wf, of hash "dwl s" "rng i"] by blast
      have e: "s' = s\<lparr>workers := (workers s)[i := wk\<lparr>wpc := WLoadInc, whdl := hdl st', wpos := rng_pos st'\<rparr>], dkeys := keys st', deng := eng st'\<rparr>"
        using st i WLoad False d by (simp add: worker_step_def wk_def Let_def)
      show ?thesis
        by (rule that [of "wk\<lparr>wpc := WLoadInc, whdl := hdl st', wpos := rng_pos st'\<rparr>"]) (use WLoad False d in \<open>simp_all add: e wleft_def\<close>)
    qed
  next
    case WLoadInc
    have t0: "0 < todo wk" using wi WLoadInc by (simp add: worker_inv_def)
    have e: "s' = s\<lparr>workers := (workers s)[i := wk\<lparr>wpc := WLoad, todo := todo wk - 1, progress := progress wk + 1\<rparr>]\<rparr>"
      using st i WLoadInc by (simp add: worker_step_def wk_def Let_def)
    show ?thesis
      by (rule that [of "wk\<lparr>wpc := WLoad, todo := todo wk - 1, progress := progress wk + 1\<rparr>"]) (use WLoadInc t0 in \<open>simp_all add: e wleft_def\<close>)
  next
    case WReset
    obtain c where c: "partition_count ?O (word_of_nat i) ?tc = Inr c" "unat c = share ?O ?tc i"
      using partition_count_share [OF tc il] by blast
    have e: "s' = s\<lparr>workers := (workers s)[i := wk\<lparr>wpc := WBench, todo := unat c, progress := 0\<rparr>]\<rparr>"
      using st i WReset c by (simp add: worker_step_def wk_def Let_def)
    show ?thesis
      by (rule that [of "wk\<lparr>wpc := WBench, todo := unat c, progress := 0\<rparr>"]) (use WReset c in \<open>simp_all add: e wleft_def\<close>)
  next
    case WBench
    show ?thesis
    proof (cases "todo wk = 0")
      case True
      have e: "s' = s\<lparr>workers := (workers s)[i := wk\<lparr>wpc := WWait3, bench_end := clock s\<rparr>]\<rparr>"
        using st i WBench True by (simp add: worker_step_def wk_def Let_def)
      show ?thesis
        by (rule that [of "wk\<lparr>wpc := WWait3, bench_end := clock s\<rparr>"]) (use WBench True in \<open>simp_all add: e wleft_def\<close>)
    next
      case False
      have e: "s' = s\<lparr>workers := (workers s)[i := wk\<lparr>todo := todo wk - 1, progress := progress wk + 1\<rparr>]\<rparr>"
        using st i WBench False by (simp add: worker_step_def wk_def Let_def)
      show ?thesis
        by (rule that [of "wk\<lparr>todo := todo wk - 1, progress := progress wk + 1\<rparr>"]) (use WBench False in \<open>simp_all add: e wleft_def\<close>)
    qed
  qed (use st i in \<open>simp_all add: worker_step_def wk_def Let_def\<close>)
  show ?thesis
    using sum_nth_update [OF i, of "wleft ?R ?O ?tc" wk'] dec i by (simp add: steps_left_def s' wk_def)
qed

lemma coord_step_left: "coord_step s = Some s' \<Longrightarrow> steps_left s' = steps_left s"
  using coord_step_frame [of s s'] by (simp add: steps_left_def)

lemma release_left:
  assumes st: "release s = Some s'"
  shows "steps_left s' = steps_left s"
proof -
  obtain p p' c' where at: "list_all (\<lambda>wk. wpc wk = p) (workers s)"
    and s': "s' = s\<lparr>cpc := c', prev_pct := (if cpc s = CWait3 then prev_pct s else 0),
                    workers := map (\<lambda>wk. wk\<lparr>wpc := p'\<rparr>) (workers s)\<rparr>"
    and cs: "(cpc s = CWait1 \<and> p = WWait1 \<and> p' = WSetup \<and> c' = CLoad) \<or>
     (cpc s = CWait2 \<and> p = WWait2 \<and> p' = WReset \<and> c' = CRun) \<or>
     (cpc s = CWait3 \<and> p = WWait3 \<and> p' = WExit \<and> c' = CJoin 0)"
    using release_moves [OF st] by blast
  let ?f = "wleft (record_count (dcp s)) (operation_count (dcp s)) (dtc s)"
  have w: "\<forall>i < length (workers s). wpc (workers s ! i) = p" using at by (simp add: list_all_length)
  have "steps_left s' = (\<Sum>i<length (workers s). ?f i ((workers s ! i)\<lparr>wpc := p'\<rparr>))"
    by (simp add: s' steps_left_def)
  also have "\<dots> = (\<Sum>i<length (workers s). ?f i (workers s ! i))"
  proof (rule sum.cong)
    fix i assume "i \<in> {..<length (workers s)}"
    then show "?f i ((workers s ! i)\<lparr>wpc := p'\<rparr>) = ?f i (workers s ! i)"
      using w cs by (auto simp: wleft_def)
  qed simp
  finally show ?thesis by (simp add: steps_left_def)
qed

lemma run_worker_events:
  "drv_inv hash s \<Longrightarrow> run hash rng evs s = Some s' \<Longrightarrow>
   length (filter is_worker_event evs) + steps_left s' = steps_left s"
proof (induction evs arbitrary: s)
  case Nil
  then show ?case by simp
next
  case (Cons ev evs)
  obtain s1 where s1: "drv_step hash rng ev s = Some s1" "run hash rng evs s1 = Some s'"
    using Cons.prems(2) by (auto split: option.splits)
  have i1: "drv_inv hash s1" by (rule drv_step_inv [OF Cons.prems(1) s1(1)])
  have ih: "length (filter is_worker_event evs) + steps_left s' = steps_left s1" by (rule Cons.IH [OF i1 s1(2)])
  show ?case
  proof (cases ev)
    case (Worker i)
    obtain z where z: "worker_step hash rng i s = Some z" "s1 = z\<lparr>clock := Suc (clock s)\<rparr>"
      using s1(1) Worker by (auto simp: drv_step_def)
    show ?thesis using ih worker_step_left [OF Cons.prems(1) z(1)] z(2) Worker by (simp add: steps_left_def)
  next
    case Coord
    obtain z where z: "coord_step s = Some z" "s1 = z\<lparr>clock := Suc (clock s)\<rparr>"
      using s1(1) Coord by (auto simp: drv_step_def)
    show ?thesis using ih coord_step_left [OF z(1)] z(2) Coord by (simp add: steps_left_def)
  next
    case Release
    obtain z where z: "release s = Some z" "s1 = z\<lparr>clock := Suc (clock s)\<rparr>"
      using s1(1) Release by (auto simp: drv_step_def)
    show ?thesis using ih release_left [OF z(1)] z(2) Release by (simp add: steps_left_def)
  qed
qed

lemma run_completes_sched:
  assumes i: "init_clients core cp props = Inr s0" and t: "thread_count core \<noteq> 0"
    and r: "record_count cp \<noteq> 0" and o: "operation_count cp \<noteq> 0"
  shows "\<exists>evs s. run hash rng evs s0 = Some s \<and> cpc s = CDone"
proof -
  have inv: "drv_inv hash s0" by (rule drv_inv_init [OF i t])
  obtain w where s0: "s0 = \<lparr>cpc = CWait1, prev_pct = 0, workers = replicate (unat (thread_count core)) new_worker,
           dtc = thread_count core, dwl = w, dcp = cp, dkeys = key_sequence w, deng = engine_init,
           clock = 0, start_time = None, insert_time = None\<rparr>"
    using init_clients_ok [OF i] by blast
  have c0: "cpc s0 = CWait1" "\<forall>j < length (workers s0). wpc (workers s0 ! j) = WWait1" "record_count (dcp s0) \<noteq> 0"
      "start_time s0 = None"
    using r by (simp_all add: s0 new_worker_def)
  obtain evs1 s1 where s1: "run hash rng evs1 s0 = Some s1" "drv_inv hash s1" "cpc s1 = CWait2" "dcp s1 = dcp s0"
      "\<forall>j < length (workers s1). wpc (workers s1 ! j) = WWait2" "insert_time s1 = insert_time s0"
    using load_phase_schedule [OF inv c0, of rng] by blast
  have t1: "insert_time s1 = None" using s1(6) by (simp add: s0)
  have o1: "operation_count (dcp s1) \<noteq> 0" using s1(4) o by (simp add: s0)
  obtain evs2 s2 where s2: "run hash rng evs2 s1 = Some s2" "cpc s2 = CWait3"
      "\<forall>j < length (workers s2). wpc (workers s2 ! j) = WWait3"
    using run_phase_schedule [OF s1(2,3,5) o1 t1, of rng] by blast
  obtain evs3 s3 where s3: "run hash rng evs3 s2 = Some s3" "cpc s3 = CDone"
    using finish_schedule [OF s2(2,3), of hash rng] by blast
  have "run hash rng (evs1 @ evs2 @ evs3) s0 = Some s3" using s1(1) s2(1) s3(1) by (simp add: run_append)
  then show ?thesis using s3(2) by blast
qed

text \<open>
  C27: whenever the configuration is accepted and \<open>threadcount\<close>,
  \<open>recordcount\<close> and \<open>operationcount\<close> are not 0, some interleaving runs the
  program to completion: every worker loads and runs its share, each report
  ends, every barrier releases and the main thread joins all workers.
\<close>

theorem run_completes:
  assumes i: "init_clients core cp props = Inr s0" and t: "thread_count core \<noteq> 0"
    and r: "record_count cp \<noteq> 0" and o: "operation_count cp \<noteq> 0"
  shows "\<exists>evs s. run hash rng evs s0 = Some s \<and> cpc s = CDone"
  by (rule run_completes_sched [OF i t r o])

text \<open>
  C36: the worker threads terminate: in every schedule from an accepted
  configuration the workers take at most
  \<open>\<Sum>j<threadcount. 2 * share recordcount j + share operationcount j + 4\<close>
  steps, because each worker step lowers the variant \<open>steps_left\<close> by one and
  no step of the main thread or barrier raises it.
\<close>

theorem worker_steps_bounded:
  assumes i: "init_clients core cp props = Inr s0" and t: "thread_count core \<noteq> 0"
    and r: "run hash rng evs s0 = Some s"
  shows "length (filter is_worker_event evs) \<le>
           (\<Sum>j<unat (thread_count core).
              2 * share (record_count cp) (thread_count core) j + share (operation_count cp) (thread_count core) j + 4)"
proof -
  obtain w where s0: "s0 = \<lparr>cpc = CWait1, prev_pct = 0, workers = replicate (unat (thread_count core)) new_worker,
           dtc = thread_count core, dwl = w, dcp = cp, dkeys = key_sequence w, deng = engine_init,
           clock = 0, start_time = None, insert_time = None\<rparr>"
    using init_clients_ok [OF i] by blast
  have "steps_left s0 = (\<Sum>j<unat (thread_count core).
        2 * share (record_count cp) (thread_count core) j + share (operation_count cp) (thread_count core) j + 4)"
    by (simp add: s0 steps_left_def wleft_def new_worker_def)
  then show ?thesis using run_worker_events [OF drv_inv_init [OF i t] r] by linarith
qed

subsection \<open>Witness\<close>

lemma run_completes_witness:
  "init_clients ((default_core_properties ''core'')\<lparr>thread_count := 2\<rparr>) \<lparr>operation_count = 1, record_count = 3\<rparr> default_core_props = Inr (projr (init_clients ((default_core_properties ''core'')\<lparr>thread_count := 2\<rparr>) \<lparr>operation_count = 1, record_count = 3\<rparr> default_core_props)) \<and> thread_count ((default_core_properties ''core'')\<lparr>thread_count := 2\<rparr>) \<noteq> 0 \<and> record_count \<lparr>operation_count = 1, record_count = 3\<rparr> \<noteq> 0 \<and>
   operation_count \<lparr>operation_count = 1, record_count = 3\<rparr> \<noteq> 0 \<and>
   (\<exists>evs s. run id (\<lambda>_ _. 0) evs (projr (init_clients ((default_core_properties ''core'')\<lparr>thread_count := 2\<rparr>) \<lparr>operation_count = 1, record_count = 3\<rparr> default_core_props)) = Some s \<and> cpc s = CDone)"
proof -
  have "\<not> isl (init_clients ((default_core_properties ''core'')\<lparr>thread_count := 2\<rparr>) \<lparr>operation_count = 1, record_count = 3\<rparr> default_core_props)" by code_simp
  then have i: "init_clients ((default_core_properties ''core'')\<lparr>thread_count := 2\<rparr>) \<lparr>operation_count = 1, record_count = 3\<rparr> default_core_props = Inr (projr (init_clients ((default_core_properties ''core'')\<lparr>thread_count := 2\<rparr>) \<lparr>operation_count = 1, record_count = 3\<rparr> default_core_props))" by simp
  have t: "thread_count ((default_core_properties ''core'')\<lparr>thread_count := 2\<rparr>) \<noteq> 0" by simp
  have r: "record_count \<lparr>operation_count = 1, record_count = 3\<rparr> \<noteq> 0" by simp
  have o: "operation_count \<lparr>operation_count = 1, record_count = 3\<rparr> \<noteq> 0" by simp
  show ?thesis using i t r o run_completes [OF i t r o, of id "\<lambda>_ _. 0"] by blast
qed

lemma worker_steps_bounded_witness:
  "init_clients ((default_core_properties ''core'')\<lparr>thread_count := 2\<rparr>) \<lparr>operation_count = 1, record_count = 3\<rparr> default_core_props = Inr (projr (init_clients ((default_core_properties ''core'')\<lparr>thread_count := 2\<rparr>) \<lparr>operation_count = 1, record_count = 3\<rparr> default_core_props)) \<and> thread_count ((default_core_properties ''core'')\<lparr>thread_count := 2\<rparr>) \<noteq> 0 \<and>
   run id (\<lambda>_ _. 0) [Release, Worker 0, Worker 1, Worker 0] (projr (init_clients ((default_core_properties ''core'')\<lparr>thread_count := 2\<rparr>) \<lparr>operation_count = 1, record_count = 3\<rparr> default_core_props)) = Some (the (run id (\<lambda>_ _. 0) [Release, Worker 0, Worker 1, Worker 0] (projr (init_clients ((default_core_properties ''core'')\<lparr>thread_count := 2\<rparr>) \<lparr>operation_count = 1, record_count = 3\<rparr> default_core_props)))) \<and>
   length (filter is_worker_event [Release, Worker 0, Worker 1, Worker 0]) \<le> (\<Sum>j<unat (thread_count ((default_core_properties ''core'')\<lparr>thread_count := 2\<rparr>)). 2 * share (record_count \<lparr>operation_count = 1, record_count = 3\<rparr>) (thread_count ((default_core_properties ''core'')\<lparr>thread_count := 2\<rparr>)) j + share (operation_count \<lparr>operation_count = 1, record_count = 3\<rparr>) (thread_count ((default_core_properties ''core'')\<lparr>thread_count := 2\<rparr>)) j + 4)"
proof -
  have "\<not> isl (init_clients ((default_core_properties ''core'')\<lparr>thread_count := 2\<rparr>) \<lparr>operation_count = 1, record_count = 3\<rparr> default_core_props)" by code_simp
  then have i: "init_clients ((default_core_properties ''core'')\<lparr>thread_count := 2\<rparr>) \<lparr>operation_count = 1, record_count = 3\<rparr> default_core_props = Inr (projr (init_clients ((default_core_properties ''core'')\<lparr>thread_count := 2\<rparr>) \<lparr>operation_count = 1, record_count = 3\<rparr> default_core_props))" by simp
  have t: "thread_count ((default_core_properties ''core'')\<lparr>thread_count := 2\<rparr>) \<noteq> 0" by simp
  have "run id (\<lambda>_ _. 0) [Release, Worker 0, Worker 1, Worker 0] (projr (init_clients ((default_core_properties ''core'')\<lparr>thread_count := 2\<rparr>) \<lparr>operation_count = 1, record_count = 3\<rparr> default_core_props)) \<noteq> None" by code_simp
  then have r: "run id (\<lambda>_ _. 0) [Release, Worker 0, Worker 1, Worker 0] (projr (init_clients ((default_core_properties ''core'')\<lparr>thread_count := 2\<rparr>) \<lparr>operation_count = 1, record_count = 3\<rparr> default_core_props)) = Some (the (run id (\<lambda>_ _. 0) [Release, Worker 0, Worker 1, Worker 0] (projr (init_clients ((default_core_properties ''core'')\<lparr>thread_count := 2\<rparr>) \<lparr>operation_count = 1, record_count = 3\<rparr> default_core_props))))" by auto
  show ?thesis using i t r worker_steps_bounded [OF i t r] by blast
qed

end
