(* ===== verification/Config.thy ===== *)
theory Config
  imports Prelude
begin

text \<open>
  \<open>parse_args\<close> of \<open>src/ycsb/src/main.rs\<close>: the command line becomes a TOML
  table.  \<open>-P path\<close> reads and parses a TOML file and extends the table with
  it; \<open>-p key=value\<close> records an override; any other argument is skipped.
  After all arguments the overrides are inserted in order, each value coerced
  to the first of \<open>i64\<close>, \<open>f64\<close>, \<open>bool\<close> (after \<open>to_ascii_lowercase\<close>) that
  parses it, else kept as a string.  Reading and parsing a file
  (\<open>read_to_string\<close> and \<open>parse::<Table>\<close>, both unwrapped) is a parameter
  \<open>load\<close> returning \<open>None\<close> on failure, and so is \<open>str::parse::<f64>\<close>, whose
  result type is a type variable; \<open>i64\<close> and \<open>bool\<close> parsing are modelled.
\<close>

datatype 'f toml_value = TInt int | TFloat 'f | TBool bool | TString string

type_synonym 'f table = "string \<rightharpoonup> 'f toml_value"

text \<open>\<open>str::split_once('=')\<close>: split at the first occurrence.\<close>

fun split_once :: "char \<Rightarrow> string \<Rightarrow> (string \<times> string) option" where
  "split_once c [] = None"
| "split_once c (x # xs) =
     (if x = c then Some ([], xs) else map_option (\<lambda>(a, b). (x # a, b)) (split_once c xs))"

text \<open>
  \<open>i64::from_str\<close>: an optional \<open>+\<close> or \<open>-\<close>, then one or more decimal digits,
  the value within \<open>[-2^63, 2^63)\<close>.
\<close>

definition parse_i64 :: "string \<Rightarrow> int option" where
  "parse_i64 s =
     (let (neg, ds) = (case s of
                         c # cs \<Rightarrow> if c = CHR ''-'' then (True, cs) else if c = CHR ''+'' then (False, cs) else (False, s)
                       | [] \<Rightarrow> (False, []));
          v = (if neg then - int (dec_value ds) else int (dec_value ds))
      in if ds \<noteq> [] \<and> list_all is_digit ds \<and> - (2 ^ 63) \<le> v \<and> v < 2 ^ 63 then Some v else None)"

text \<open>\<open>char::to_ascii_lowercase\<close> and \<open>bool::from_str\<close>.\<close>

definition ascii_lower :: "char \<Rightarrow> char" where
  "ascii_lower c = (if 65 \<le> (of_char c :: nat) \<and> (of_char c :: nat) \<le> 90 then char_of (of_char c + (32::nat)) else c)"

definition parse_bool :: "string \<Rightarrow> bool option" where
  "parse_bool s = (if s = ''true'' then Some True else if s = ''false'' then Some False else None)"

text \<open>The coercion of an override's value, in the order of the source.\<close>

definition coerce :: "(string \<Rightarrow> 'f option) \<Rightarrow> string \<Rightarrow> 'f toml_value" where
  "coerce pf v =
     (case parse_i64 v of
        Some i \<Rightarrow> TInt i
      | None \<Rightarrow>
          (case pf v of
             Some f \<Rightarrow> TFloat f
           | None \<Rightarrow>
               (case parse_bool (map ascii_lower v) of
                  Some b \<Rightarrow> TBool b
                | None \<Rightarrow> TString v)))"

text \<open>
  The \<open>while !args.is_empty()\<close> loop over the arguments in their order (the
  source reverses the vector and pops); a missing \<open>-P\<close> path or \<open>-p\<close> pair, a
  pair without \<open>=\<close> and a file that does not load are failed unwraps.
\<close>

fun args_loop :: "(string \<Rightarrow> 'f table option) \<Rightarrow> string list \<Rightarrow> 'f table \<times> (string \<times> string) list \<Rightarrow>
    panic + 'f table \<times> (string \<times> string) list" where
  "args_loop load [] acc = Inr acc"
| "args_loop load (k # rest) (ret, ow) =
     (if k = ''-P'' then
        (case rest of
           [] \<Rightarrow> Inl UnwrapNone
         | path # rest' \<Rightarrow>
             (case load path of
                None \<Rightarrow> Inl ConfigError
              | Some tbl \<Rightarrow> args_loop load rest' (ret ++ tbl, ow)))
      else if k = ''-p'' then
        (case rest of
           [] \<Rightarrow> Inl UnwrapNone
         | kv # rest' \<Rightarrow>
             (case split_once CHR ''='' kv of
                None \<Rightarrow> Inl UnwrapNone
              | Some (a, b) \<Rightarrow> args_loop load rest' (ret, ow @ [(a, b)])))
      else args_loop load rest (ret, ow))"

definition parse_args :: "(string \<Rightarrow> 'f table option) \<Rightarrow> (string \<Rightarrow> 'f option) \<Rightarrow> string list \<Rightarrow>
    panic + 'f table" where
  "parse_args load pf args =
     (case args_loop load args (Map.empty, []) of
        Inl err \<Rightarrow> Inl err
      | Inr (ret, ow) \<Rightarrow> Inr (foldl (\<lambda>m (k, v). m(k \<mapsto> coerce pf v)) ret ow))"

text \<open>Printing of an \<open>i64\<close> (\<open>to_string\<close>), the inverse the parser is checked against.\<close>

definition int_string :: "int \<Rightarrow> string" where
  "int_string i = (if i < 0 then CHR ''-'' # dec_string (nat (- i)) else dec_string (nat i))"

subsection \<open>Lemmas\<close>

lemma split_once_append:
  "CHR ''='' \<notin> set k \<Longrightarrow> split_once CHR ''='' (k @ CHR ''='' # v) = Some (k, v)"
  by (induction k) auto

lemma dec_string_head:
  "\<exists>c cs. dec_string n = c # cs \<and> c \<noteq> CHR ''-'' \<and> c \<noteq> CHR ''+''"
proof -
  obtain c cs where e: "dec_string n = c # cs" using dec_string_nonempty [of n] by (cases "dec_string n") auto
  have "is_digit c" using all_digits_dec_string [of n] e by simp
  then show ?thesis using e by (auto simp: is_digit_def)
qed

lemma parse_i64_int_string:
  "- (2 ^ 63) \<le> i \<Longrightarrow> i < 2 ^ 63 \<Longrightarrow> parse_i64 (int_string i) = Some i"
proof -
  assume lo: "- (2 ^ 63) \<le> i" and hi: "i < 2 ^ 63"
  show ?thesis
  proof (cases "i < 0")
    case True
    then show ?thesis using lo all_digits_dec_string [of "nat (- i)"] dec_string_nonempty [of "nat (- i)"]
      by (simp add: int_string_def parse_i64_def dec_value_dec_string)
  next
    case False
    obtain c cs where e: "dec_string (nat i) = c # cs" "c \<noteq> CHR ''-''" "c \<noteq> CHR ''+''"
      using dec_string_head by blast
    have "list_all is_digit (c # cs)" "dec_value (c # cs) = nat i"
      using all_digits_dec_string [of "nat i"] dec_value_dec_string [of "nat i"] e(1) by simp_all
    then show ?thesis using False hi e by (simp add: int_string_def parse_i64_def)
  qed
qed

text \<open>
  C30: an override whose value is an \<open>i64\<close> printed in decimal becomes that
  integer: the \<open>i64\<close> parser inverts printing and is tried first, before the
  \<open>f64\<close> parser, whatever that parser accepts.
\<close>

theorem coerce_int_string:
  "- (2 ^ 63) \<le> i \<Longrightarrow> i < 2 ^ 63 \<Longrightarrow> coerce pf (int_string i) = TInt i"
  by (simp add: coerce_def parse_i64_int_string)

text \<open>
  C28: a \<open>-p key=value\<close> wins over a \<open>-P\<close> file given after it: the overrides
  are applied only after all arguments are read.  The spec says the flags
  compose left to right, later ones winning.
\<close>

theorem override_beats_later_file:
  "CHR ''='' \<notin> set k \<Longrightarrow> load path = Some tbl \<Longrightarrow>
   parse_args load pf [''-p'', k @ CHR ''='' # v, ''-P'', path] = Inr (tbl(k \<mapsto> coerce pf v))"
  by (simp add: parse_args_def split_once_append)

text \<open>
  C31: a \<open>-p\<close> argument without \<open>=\<close> aborts the parse (the failed unwrap of
  \<open>split_once\<close>), whatever follows it.
\<close>

theorem override_without_equals:
  "CHR ''='' \<notin> set kv \<Longrightarrow> parse_args load pf (''-p'' # kv # rest) = Inl UnwrapNone"
proof -
  assume "CHR ''='' \<notin> set kv"
  then have "split_once CHR ''='' kv = None" by (induction kv) auto
  then show ?thesis by (simp add: parse_args_def)
qed

text \<open>
  C32: an argument that is neither \<open>-P\<close> nor \<open>-p\<close> is skipped silently.
\<close>

theorem unknown_argument_skipped:
  "x \<noteq> ''-P'' \<Longrightarrow> x \<noteq> ''-p'' \<Longrightarrow> parse_args load pf (x # rest) = parse_args load pf rest"
  by (simp add: parse_args_def)

lemma args_loop_files:
  "\<forall>p \<in> set ps. load p \<noteq> None \<Longrightarrow>
   args_loop load (concat (map (\<lambda>p. [''-P'', p]) ps)) (ret, ow) = Inr (foldl (\<lambda>m p. m ++ the (load p)) ret ps, ow)"
  by (induction ps arbitrary: ret) auto

lemma foldl_map_add_last:
  "foldl (\<lambda>m p. m ++ f p) m0 ps k =
     (if filter (\<lambda>p. f p k \<noteq> None) ps = [] then m0 k else f (last (filter (\<lambda>p. f p k \<noteq> None) ps)) k)"
proof (induction ps rule: rev_induct)
  case Nil
  then show ?case by simp
next
  case (snoc p ps)
  show ?case
  proof (cases "f p k")
    case None
    then show ?thesis using snoc by (simp add: map_add_def)
  next
    case (Some v)
    then show ?thesis by (simp add: map_add_def)
  qed
qed

text \<open>
  C29: \<open>-P\<close> files compose left to right with the later file winning: after a
  command line of \<open>-P\<close> files that all load, a key holds the value of the last
  file that defines it, and is absent when no file does.
\<close>

theorem later_file_wins:
  assumes l: "\<forall>p \<in> set ps. load p \<noteq> None"
  shows "\<exists>t. parse_args load pf (concat (map (\<lambda>p. [''-P'', p]) ps)) = Inr t \<and>
           (\<forall>k. t k = (if filter (\<lambda>p. the (load p) k \<noteq> None) ps = [] then None
                      else the (load (last (filter (\<lambda>p. the (load p) k \<noteq> None) ps))) k))"
  using args_loop_files [OF l, of Map.empty "[]"] foldl_map_add_last [of "\<lambda>p. the (load p)" Map.empty ps]
  by (simp add: parse_args_def)

subsection \<open>Witnesses\<close>

lemma override_beats_later_file_witness:
  "CHR ''='' \<notin> set ''threadcount'' \<and>
   (\<lambda>p. if p = ''w.toml'' then Some [''threadcount'' \<mapsto> TInt 8] else None) ''w.toml'' =
     Some [''threadcount'' \<mapsto> (TInt 8 :: nat toml_value)] \<and>
   parse_args (\<lambda>p. if p = ''w.toml'' then Some [''threadcount'' \<mapsto> TInt 8] else None) (\<lambda>_. None :: nat option)
     [''-p'', ''threadcount'' @ CHR ''='' # ''4'', ''-P'', ''w.toml''] =
     Inr ([''threadcount'' \<mapsto> TInt 8](''threadcount'' \<mapsto> coerce (\<lambda>_. None) ''4''))"
proof -
  have k: "CHR ''='' \<notin> set ''threadcount''" by simp
  have l: "(\<lambda>p. if p = ''w.toml'' then Some [''threadcount'' \<mapsto> TInt 8] else None) ''w.toml'' =
     Some [''threadcount'' \<mapsto> (TInt 8 :: nat toml_value)]" by simp
  show ?thesis
    using k l override_beats_later_file [where k = "''threadcount''" and v = "''4''" and path = "''w.toml''"
        and load = "\<lambda>p. if p = ''w.toml'' then Some [''threadcount'' \<mapsto> TInt 8] else None"
        and tbl = "[''threadcount'' \<mapsto> TInt 8]" and pf = "\<lambda>_. None :: nat option", OF k l]
    by blast
qed

lemma later_file_wins_witness:
  "(\<lambda>p. if p = ''a'' then Some [''x'' \<mapsto> TInt 1, ''y'' \<mapsto> TInt 2] else Some [''x'' \<mapsto> (TInt 3 :: nat toml_value)]) ''a'' \<noteq> None \<and> (\<lambda>p. if p = ''a'' then Some [''x'' \<mapsto> TInt 1, ''y'' \<mapsto> TInt 2] else Some [''x'' \<mapsto> (TInt 3 :: nat toml_value)]) ''b'' \<noteq> None \<and>
   (\<exists>t. parse_args (\<lambda>p. if p = ''a'' then Some [''x'' \<mapsto> TInt 1, ''y'' \<mapsto> TInt 2] else Some [''x'' \<mapsto> (TInt 3 :: nat toml_value)]) (\<lambda>_. None) (concat (map (\<lambda>p. [''-P'', p]) [''a'', ''b''])) = Inr t \<and>
        (\<forall>k. t k = (if filter (\<lambda>p. the ((\<lambda>p. if p = ''a'' then Some [''x'' \<mapsto> TInt 1, ''y'' \<mapsto> TInt 2] else Some [''x'' \<mapsto> (TInt 3 :: nat toml_value)]) p) k \<noteq> None) [''a'', ''b''] = [] then None
                     else the ((\<lambda>p. if p = ''a'' then Some [''x'' \<mapsto> TInt 1, ''y'' \<mapsto> TInt 2] else Some [''x'' \<mapsto> (TInt 3 :: nat toml_value)]) (last (filter (\<lambda>p. the ((\<lambda>p. if p = ''a'' then Some [''x'' \<mapsto> TInt 1, ''y'' \<mapsto> TInt 2] else Some [''x'' \<mapsto> (TInt 3 :: nat toml_value)]) p) k \<noteq> None) [''a'', ''b'']))) k)))"
proof -
  have l: "\<forall>p \<in> set [''a'', ''b'']. (\<lambda>p. if p = ''a'' then Some [''x'' \<mapsto> TInt 1, ''y'' \<mapsto> TInt 2] else Some [''x'' \<mapsto> (TInt 3 :: nat toml_value)]) p \<noteq> None" by simp
  have "\<exists>t. parse_args (\<lambda>p. if p = ''a'' then Some [''x'' \<mapsto> TInt 1, ''y'' \<mapsto> TInt 2] else Some [''x'' \<mapsto> (TInt 3 :: nat toml_value)]) (\<lambda>_. None) (concat (map (\<lambda>p. [''-P'', p]) [''a'', ''b''])) = Inr t \<and>
        (\<forall>k. t k = (if filter (\<lambda>p. the ((\<lambda>p. if p = ''a'' then Some [''x'' \<mapsto> TInt 1, ''y'' \<mapsto> TInt 2] else Some [''x'' \<mapsto> (TInt 3 :: nat toml_value)]) p) k \<noteq> None) [''a'', ''b''] = [] then None
                     else the ((\<lambda>p. if p = ''a'' then Some [''x'' \<mapsto> TInt 1, ''y'' \<mapsto> TInt 2] else Some [''x'' \<mapsto> (TInt 3 :: nat toml_value)]) (last (filter (\<lambda>p. the ((\<lambda>p. if p = ''a'' then Some [''x'' \<mapsto> TInt 1, ''y'' \<mapsto> TInt 2] else Some [''x'' \<mapsto> (TInt 3 :: nat toml_value)]) p) k \<noteq> None) [''a'', ''b'']))) k))"
    using later_file_wins [where load = "(\<lambda>p. if p = ''a'' then Some [''x'' \<mapsto> TInt 1, ''y'' \<mapsto> TInt 2] else Some [''x'' \<mapsto> (TInt 3 :: nat toml_value)])" and ps = "[''a'', ''b'']" and pf = "\<lambda>_. None", OF l] by (simp only: simp_thms)
  then show ?thesis by simp
qed

lemma coerce_int_string_witness:
  "- (2 ^ 63) \<le> (-42::int) \<and> (-42::int) < 2 ^ 63 \<and>
   coerce (\<lambda>_. None :: nat option) (int_string (-42)) = TInt (-42)"
  using coerce_int_string [of "-42" "\<lambda>_. None :: nat option"] by simp

lemma override_without_equals_witness:
  "CHR ''='' \<notin> set ''threads'' \<and>
   parse_args (\<lambda>_. None) (\<lambda>_. None :: nat option) (''-p'' # ''threads'' # [''-P'', ''f'']) = Inl UnwrapNone"
proof -
  have h: "CHR ''='' \<notin> set ''threads''" by simp
  show ?thesis using h override_without_equals [OF h, of "\<lambda>_. None" "\<lambda>_. None :: nat option" "[''-P'', ''f'']"]
    by blast
qed

lemma unknown_argument_skipped_witness:
  "''-x'' \<noteq> ''-P'' \<and> ''-x'' \<noteq> ''-p'' \<and>
   parse_args (\<lambda>_. None) (\<lambda>_. None :: nat option) (''-x'' # [''-p'', ''a=1'']) =
     parse_args (\<lambda>_. None) (\<lambda>_. None) [''-p'', ''a=1'']"
proof -
  have h: "''-x'' \<noteq> ''-P''" "''-x'' \<noteq> ''-p''" by simp_all
  show ?thesis using h unknown_argument_skipped [OF h, of "\<lambda>_. None" "\<lambda>_. None :: nat option" "[''-p'', ''a=1'']"]
    by blast
qed

end
