(* ===== verification/Main_Setup.thy ===== *)
theory Main_Setup
  imports Config Driver
begin

text \<open>
  The start of \<open>main\<close> in \<open>src/ycsb/src/main.rs\<close>: the table of \<open>parse_args\<close>
  is deserialised (\<open>try_into\<close>) into \<open>CoreProperties\<close> and, by
  \<open>ClientProperties::parse\<close>, into \<open>ClientProperties\<close>; the workload
  deserialises its own \<open>Properties\<close> from the same table in
  \<open>CoreWorkload::new\<close>, which is a parameter here.  Deserialisation follows
  serde's derive: a missing field takes its \<open>default\<close> (a missing \<open>workload\<close>,
  which has none, is an error), unknown keys are ignored, and an integer field
  accepts a TOML integer in the range of its type only.
\<close>

definition toml_uint :: "nat \<Rightarrow> 'f toml_value \<Rightarrow> panic + 'a::len word" where
  "toml_uint bits v = (case v of TInt i \<Rightarrow> if 0 \<le> i \<and> i < 2 ^ bits then Inr (word_of_int i) else Inl ConfigError
                                | _ \<Rightarrow> Inl ConfigError)"

definition toml_str :: "'f toml_value \<Rightarrow> panic + string" where
  "toml_str v = (case v of TString s \<Rightarrow> Inr s | _ \<Rightarrow> Inl ConfigError)"

text \<open>A field with a \<open>serde(default)\<close>: absent, the default; present, converted.\<close>

definition field_or :: "'f table \<Rightarrow> string \<Rightarrow> ('f toml_value \<Rightarrow> panic + 'a) \<Rightarrow> 'a \<Rightarrow> panic + 'a" where
  "field_or t k conv d = (case t k of None \<Rightarrow> Inr d | Some v \<Rightarrow> conv v)"

definition deser_core_properties :: "'f table \<Rightarrow> panic + core_properties" where
  "deser_core_properties t =
     (case t ''workload'' of
        None \<Rightarrow> Inl ConfigError
      | Some wv \<Rightarrow>
          (case toml_str wv of
             Inl e \<Rightarrow> Inl e
           | Inr wl \<Rightarrow>
               (case (field_or t ''db'' toml_str ''std_btreemap_mutex'',
                      field_or t ''maxexecutiontime'' (toml_uint 32) 0,
                      field_or t ''threadcount'' (toml_uint 32) 1,
                      field_or t ''target'' (toml_uint 32) 0) of
                  (Inr d, Inr m, Inr tc, Inr tg) \<Rightarrow>
                    Inr \<lparr>cp_workload = wl, cp_db = d, max_execution_time = m, thread_count = tc, target = tg\<rparr>
                | _ \<Rightarrow> Inl ConfigError)))"

definition deser_client_properties :: "'f table \<Rightarrow> panic + client_properties" where
  "deser_client_properties t =
     (case (field_or t ''operationcount'' (toml_uint 64) 0, field_or t ''recordcount'' (toml_uint 64) 0) of
        (Inr oc, Inr rc) \<Rightarrow> Inr \<lparr>operation_count = oc, record_count = rc\<rparr>
      | _ \<Rightarrow> Inl ConfigError)"

definition toml_bool :: "'f toml_value \<Rightarrow> panic + bool" where
  "toml_bool v = (case v of TBool b \<Rightarrow> Inr b | _ \<Rightarrow> Inl ConfigError)"

text \<open>An \<open>f64\<close> field takes a TOML float, read by the library as \<open>fr\<close>, or an integer (\<open>i64 as f64\<close>).\<close>

definition toml_f64 :: "('f \<Rightarrow> real) \<Rightarrow> 'f toml_value \<Rightarrow> panic + real" where
  "toml_f64 fr v = (case v of TFloat f \<Rightarrow> Inr (fr f) | TInt i \<Rightarrow> Inr (of_int i) | _ \<Rightarrow> Inl ConfigError)"

text \<open>An \<open>Option<u64>\<close> field without a default: absent is \<open>None\<close>.\<close>

definition toml_opt_u64 :: "'f toml_value \<Rightarrow> panic + u64 option" where
  "toml_opt_u64 v = (case toml_uint 64 v of Inl e \<Rightarrow> Inl e | Inr n \<Rightarrow> Inr (Some n))"

text \<open>
  One field of \<open>Properties\<close>: the record so far keeps the field's default
  when the key is absent, takes the converted value when present, and the
  first failing conversion is the error.
\<close>

definition set_field :: "'f table \<Rightarrow> string \<Rightarrow> ('f toml_value \<Rightarrow> panic + 'a) \<Rightarrow> ('a \<Rightarrow> core_props \<Rightarrow> core_props) \<Rightarrow>
    panic + core_props \<Rightarrow> panic + core_props" where
  "set_field t k conv upd r =
     (case r of
        Inl e \<Rightarrow> Inl e
      | Inr p \<Rightarrow> (case t k of None \<Rightarrow> Inr p | Some v \<Rightarrow> (case conv v of Inl e \<Rightarrow> Inl e | Inr x \<Rightarrow> Inr (upd x p))))"

text \<open>\<open>props.clone().try_into()\<close> for the workload's \<open>Properties\<close>, key by key.\<close>

definition deser_properties :: "('f \<Rightarrow> real) \<Rightarrow> 'f table \<Rightarrow> panic + core_props" where
  "deser_properties fr t =
     set_field t ''insertproportion'' (toml_f64 fr) (\<lambda>x p. p\<lparr>insert_proportion := x\<rparr>)
    (set_field t ''insertorder'' toml_str (\<lambda>x p. p\<lparr>insert_order := x\<rparr>)
    (set_field t ''writeallfields'' toml_bool (\<lambda>x p. p\<lparr>write_all_fields := x\<rparr>)
    (set_field t ''readallfieldsbyname'' toml_bool (\<lambda>x p. p\<lparr>read_all_fields_by_name := x\<rparr>)
    (set_field t ''readallfields'' toml_bool (\<lambda>x p. p\<lparr>read_all_fields := x\<rparr>)
    (set_field t ''zeropadding'' (toml_uint 32) (\<lambda>x p. p\<lparr>zero_padding := x\<rparr>)
    (set_field t ''insertcount'' toml_opt_u64 (\<lambda>x p. p\<lparr>insert_count := x\<rparr>)
    (set_field t ''insertstart'' (toml_uint 64) (\<lambda>x p. p\<lparr>insert_start := x\<rparr>)
    (set_field t ''scanlengthdistribution'' toml_str (\<lambda>x p. p\<lparr>scan_length_distribution := x\<rparr>)
    (set_field t ''maxscanlength'' (toml_uint 32) (\<lambda>x p. p\<lparr>max_scan_length := x\<rparr>)
    (set_field t ''minscanlength'' (toml_uint 32) (\<lambda>x p. p\<lparr>min_scan_length := x\<rparr>)
    (set_field t ''requestdistribution'' toml_str (\<lambda>x p. p\<lparr>request_distribution := x\<rparr>)
    (set_field t ''fieldlengthdistribution'' toml_str (\<lambda>x p. p\<lparr>field_length_distribution := x\<rparr>)
    (set_field t ''minfieldlength'' (toml_uint 32) (\<lambda>x p. p\<lparr>field_length_min := x\<rparr>)
    (set_field t ''fieldlength'' (toml_uint 32) (\<lambda>x p. p\<lparr>field_length := x\<rparr>)
    (set_field t ''fieldnameprefix'' toml_str (\<lambda>x p. p\<lparr>field_name_prefix := x\<rparr>)
    (set_field t ''fieldcount'' (toml_uint 32) (\<lambda>x p. p\<lparr>field_count := x\<rparr>)
    (set_field t ''table'' toml_str (\<lambda>x p. p\<lparr>table := x\<rparr>)
      (Inr default_core_props))))))))))))))))))"

text \<open>\<open>CoreWorkload::new\<close> unwraps that result: a failure panics.\<close>

definition workload_props :: "('f \<Rightarrow> real) \<Rightarrow> 'f table \<Rightarrow> panic + core_props" where
  "workload_props fr t = (case deser_properties fr t of Inl _ \<Rightarrow> Inl UnwrapErr | Inr p \<Rightarrow> Inr p)"

text \<open>
  \<open>main\<close> up to the first barrier: parse, deserialise (the \<open>?\<close> of both
  \<open>try_into\<close>s), select the workload (only \<open>core\<close>), whose \<open>new\<close>
  deserialises \<open>Properties\<close> (unwrapped), and build the clients.
\<close>

definition main_setup :: "(string \<Rightarrow> 'f table option) \<Rightarrow> (string \<Rightarrow> 'f option) \<Rightarrow>
    ('f \<Rightarrow> real) \<Rightarrow> string list \<Rightarrow> panic + driver" where
  "main_setup load pf fr args =
     (case parse_args load pf args of
        Inl e \<Rightarrow> Inl e
      | Inr t \<Rightarrow>
          (case deser_core_properties t of
             Inl e \<Rightarrow> Inl e
           | Inr core \<Rightarrow>
               (case deser_client_properties t of
                  Inl e \<Rightarrow> Inl e
                | Inr cp \<Rightarrow>
                    (if cp_workload core \<noteq> ''core'' then Inl InvalidWorkload
                     else case workload_props fr t of
                       Inl e \<Rightarrow> Inl e
                     | Inr props \<Rightarrow> init_clients core cp props))))"

subsection \<open>Lemmas\<close>

lemma main_setup_ok:
  assumes "main_setup load pf fr args = Inr s0"
  shows "\<exists>t core cp props. parse_args load pf args = Inr t \<and> deser_core_properties t = Inr core \<and>
           deser_client_properties t = Inr cp \<and> workload_props fr t = Inr props \<and> init_clients core cp props = Inr s0"
  using assms by (auto simp: main_setup_def split: sum.splits if_splits)

lemma deser_client_recordcount:
  "deser_client_properties t = Inr cp \<Longrightarrow> t ''recordcount'' = None \<Longrightarrow> record_count cp = 0"
  by (auto simp: deser_client_properties_def field_or_def split: sum.splits option.splits)

lemma coerce_dec_string:
  "n < 2 ^ 63 \<Longrightarrow> coerce pf (dec_string n) = TInt (int n)"
  using parse_i64_int_string [of "int n"] by (simp add: coerce_def int_string_def)

lemma parse_core_run_args:
  assumes pf: "pf ''core'' = None" and r: "R < 2 ^ 63" and o: "Ops < 2 ^ 63"
  shows "parse_args load pf [''-p'', ''workload=core'', ''-p'', ''recordcount='' @ dec_string R,
                             ''-p'', ''operationcount='' @ dec_string Ops] =
         Inr [''workload'' \<mapsto> TString ''core'', ''recordcount'' \<mapsto> TInt (int R), ''operationcount'' \<mapsto> TInt (int Ops)]"
proof -
  have c: "coerce pf ''core'' = TString ''core''"
    using pf by (simp add: coerce_def parse_i64_def is_digit_def parse_bool_def ascii_lower_def)
  have s1: "split_once CHR ''='' (''recordcount='' @ dec_string R) = Some (''recordcount'', dec_string R)"
    using split_once_append [of "''recordcount''" "dec_string R"] by simp
  have s2: "split_once CHR ''='' (''operationcount='' @ dec_string Ops) = Some (''operationcount'', dec_string Ops)"
    using split_once_append [of "''operationcount''" "dec_string Ops"] by simp
  show ?thesis using c s1 s2 coerce_dec_string [OF r, of pf] coerce_dec_string [OF o, of pf]
    by (simp add: parse_args_def)
qed

lemma main_setup_core_run:
  assumes pf: "pf ''core'' = None" and r: "R < 2 ^ 63" and o: "Ops < 2 ^ 63"
  shows "main_setup load pf fr [''-p'', ''workload=core'', ''-p'', ''recordcount='' @ dec_string R,
                                ''-p'', ''operationcount='' @ dec_string Ops] =
         init_clients (default_core_properties ''core'')
           \<lparr>operation_count = word_of_nat Ops, record_count = word_of_nat R\<rparr> default_core_props"
proof -
  have ri: "int R < 2 ^ 64" "int Ops < 2 ^ 64" using r o by simp_all
  have w: "workload_props fr [''workload'' \<mapsto> TString ''core'', ''recordcount'' \<mapsto> TInt (int R), ''operationcount'' \<mapsto> TInt (int Ops)]
           = Inr default_core_props"
    by (simp add: workload_props_def deser_properties_def set_field_def)
  show ?thesis using parse_core_run_args [where pf = pf and R = R and Ops = Ops and load = load, OF pf r o] w ri
    by (simp add: main_setup_def deser_core_properties_def deser_client_properties_def field_or_def
        toml_str_def toml_uint_def default_core_properties_def)
qed

lemma init_clients_default_ok:
  "\<exists>s0. init_clients (default_core_properties ''core'') cp default_core_props = Inr s0"
  by (simp add: init_clients_def workload_new_def default_core_properties_def default_core_props_def Let_def)

lemma set_field_Inl [simp]: "set_field t k conv upd (Inl e) = Inl e"
  by (simp add: set_field_def)

lemma deser_core_workload:
  "deser_core_properties t = Inr core \<Longrightarrow> t ''workload'' = Some (TString wl) \<Longrightarrow> cp_workload core = wl"
  by (auto simp: deser_core_properties_def toml_str_def split: sum.splits prod.splits)

text \<open>
  C33: end to end, every command line that leaves \<open>recordcount\<close> unset (no
  \<open>-P\<close> file and no \<open>-p\<close> defines it), such as \<open>-p workload=core\<close>, starts a run
  that can never complete: the default \<open>0\<close> reaches the division of
  \<open>show_progress\<close>.
\<close>

theorem unset_recordcount_never_completes:
  assumes p: "parse_args load pf args = Inr t" and n: "t ''recordcount'' = None"
    and m: "main_setup load pf fr args = Inr s0" and re: "reach hash rng s0 s"
  shows "cpc s \<noteq> CDone"
proof -
  obtain t' core cp props where o: "parse_args load pf args = Inr t'" "deser_client_properties t' = Inr cp"
      "init_clients core cp props = Inr s0"
    using main_setup_ok [OF m] by blast
  have "record_count cp = 0" using o(1,2) p n deser_client_recordcount by simp
  then show ?thesis using zero_records_stuck [OF o(3) _ re] by auto
qed

text \<open>
  C34: a \<open>threadcount\<close> outside the range of \<open>u32\<close> is rejected by the
  deserialisation, so \<open>main\<close> returns an error before any thread starts.
\<close>

theorem threadcount_out_of_range:
  assumes p: "parse_args load pf args = Inr t" and v: "t ''threadcount'' = Some (TInt i)"
    and r: "i < 0 \<or> 2 ^ 32 \<le> i"
  shows "main_setup load pf fr args = Inl ConfigError"
proof -
  have "t ''workload'' = None \<or> (\<exists>wv. t ''workload'' = Some wv)" by auto
  then have "deser_core_properties t = Inl ConfigError"
    using v r by (auto simp: deser_core_properties_def field_or_def toml_uint_def toml_str_def split: sum.splits option.splits toml_value.splits)
  then show ?thesis using p by (simp add: main_setup_def)
qed

text \<open>
  C40: a workload property of the wrong type, such as
  \<open>-p fieldcount=ten\<close>, makes \<open>main\<close> panic in the \<open>unwrap\<close> of
  \<open>CoreWorkload::new\<close>, before any thread starts, where a driver property of
  the wrong type is returned as an error by \<open>?\<close>.
\<close>

theorem workload_key_type_error:
  assumes p: "parse_args load pf args = Inr t" and w: "t ''workload'' = Some (TString ''core'')"
    and c: "deser_core_properties t = Inr core" and cl: "deser_client_properties t = Inr cp"
    and f: "t ''fieldcount'' = Some (TString s)"
  shows "main_setup load pf fr args = Inl UnwrapErr"
proof -
  obtain e where e: "set_field t ''fieldcount'' (toml_uint 32) (\<lambda>x p. p\<lparr>field_count := x\<rparr>)
      (set_field t ''table'' toml_str (\<lambda>x p. p\<lparr>table := x\<rparr>) (Inr default_core_props)) = Inl e"
    using f by (cases "set_field t ''table'' toml_str (\<lambda>x p. p\<lparr>table := x\<rparr>) (Inr default_core_props)")
      (auto simp: set_field_def toml_uint_def)
  have "deser_properties fr t = Inl e" by (simp add: deser_properties_def e)
  moreover have "cp_workload core = ''core''" by (rule deser_core_workload [OF c w])
  ultimately show ?thesis using p c cl by (simp add: main_setup_def workload_props_def)
qed

subsection \<open>Witnesses\<close>

lemma unset_recordcount_never_completes_witness:
  "parse_args (\<lambda>_. None) (\<lambda>_. None :: nat option) [''-p'', ''workload=core''] = Inr [''workload'' \<mapsto> TString ''core''] \<and>
   [''workload'' \<mapsto> (TString ''core'' :: nat toml_value)] ''recordcount'' = None \<and>
   main_setup (\<lambda>_. None) (\<lambda>_. None :: nat option) (\<lambda>_. 0) [''-p'', ''workload=core''] = Inr (projr (main_setup (\<lambda>_. None) (\<lambda>_. None :: nat option) (\<lambda>_. 0) [''-p'', ''workload=core''])) \<and>
   reach id (\<lambda>_ _. 0) (projr (main_setup (\<lambda>_. None) (\<lambda>_. None :: nat option) (\<lambda>_. 0) [''-p'', ''workload=core''])) (projr (main_setup (\<lambda>_. None) (\<lambda>_. None :: nat option) (\<lambda>_. 0) [''-p'', ''workload=core''])) \<and>
   cpc (projr (main_setup (\<lambda>_. None) (\<lambda>_. None :: nat option) (\<lambda>_. 0) [''-p'', ''workload=core''])) \<noteq> CDone"
proof -
  have p: "parse_args (\<lambda>_. None) (\<lambda>_. None :: nat option) [''-p'', ''workload=core''] = Inr [''workload'' \<mapsto> TString ''core'']"
    by (simp add: parse_args_def coerce_def parse_i64_def is_digit_def parse_bool_def ascii_lower_def)
  have n: "[''workload'' \<mapsto> (TString ''core'' :: nat toml_value)] ''recordcount'' = None" by simp
  have "\<not> isl (main_setup (\<lambda>_. None) (\<lambda>_. None :: nat option) (\<lambda>_. 0) [''-p'', ''workload=core''])" by code_simp
  then have m: "main_setup (\<lambda>_. None) (\<lambda>_. None :: nat option) (\<lambda>_. 0) [''-p'', ''workload=core''] = Inr (projr (main_setup (\<lambda>_. None) (\<lambda>_. None :: nat option) (\<lambda>_. 0) [''-p'', ''workload=core'']))" by simp
  have re: "reach id (\<lambda>_ _. 0) (projr (main_setup (\<lambda>_. None) (\<lambda>_. None :: nat option) (\<lambda>_. 0) [''-p'', ''workload=core''])) (projr (main_setup (\<lambda>_. None) (\<lambda>_. None :: nat option) (\<lambda>_. 0) [''-p'', ''workload=core'']))" by (rule reach_init)
  show ?thesis using p n m re unset_recordcount_never_completes [OF p n m re] by blast
qed

lemma threadcount_out_of_range_witness:
  "parse_args (\<lambda>_. None) (\<lambda>_. None :: nat option) [''-p'', ''threadcount=-1''] = Inr [''threadcount'' \<mapsto> TInt (-1)] \<and>
   [''threadcount'' \<mapsto> (TInt (-1) :: nat toml_value)] ''threadcount'' = Some (TInt (-1)) \<and>
   ((-1::int) < 0 \<or> 2 ^ 32 \<le> (-1::int)) \<and>
   main_setup (\<lambda>_. None) (\<lambda>_. None :: nat option) (\<lambda>_. 0) [''-p'', ''threadcount=-1''] = Inl ConfigError"
proof -
  have d: "dec_value ''1'' = 1" by code_simp
  have p: "parse_args (\<lambda>_. None) (\<lambda>_. None :: nat option) [''-p'', ''threadcount=-1''] = Inr [''threadcount'' \<mapsto> TInt (-1)]"
    by (simp add: parse_args_def coerce_def parse_i64_def is_digit_def parse_bool_def ascii_lower_def d)
  have v: "[''threadcount'' \<mapsto> (TInt (-1) :: nat toml_value)] ''threadcount'' = Some (TInt (-1))" by simp
  have r: "(-1::int) < 0 \<or> 2 ^ 32 \<le> (-1::int)" by simp
  show ?thesis using p v r threadcount_out_of_range [OF p v r, of "\<lambda>_. 0"] by blast
qed

lemma workload_key_type_error_witness:
  "parse_args (\<lambda>_. None) (\<lambda>_. None :: nat option) [''-p'', ''workload=core'', ''-p'', ''fieldcount=ten''] =
     Inr [''workload'' \<mapsto> TString ''core'', ''fieldcount'' \<mapsto> TString ''ten''] \<and>
   [''workload'' \<mapsto> TString ''core'', ''fieldcount'' \<mapsto> (TString ''ten'' :: nat toml_value)] ''workload'' = Some (TString ''core'') \<and>
   deser_core_properties [''workload'' \<mapsto> TString ''core'', ''fieldcount'' \<mapsto> (TString ''ten'' :: nat toml_value)] = Inr (default_core_properties ''core'') \<and>
   deser_client_properties [''workload'' \<mapsto> TString ''core'', ''fieldcount'' \<mapsto> (TString ''ten'' :: nat toml_value)] = Inr \<lparr>operation_count = 0, record_count = 0\<rparr> \<and>
   [''workload'' \<mapsto> TString ''core'', ''fieldcount'' \<mapsto> (TString ''ten'' :: nat toml_value)] ''fieldcount'' = Some (TString ''ten'') \<and>
   main_setup (\<lambda>_. None) (\<lambda>_. None :: nat option) (\<lambda>_. 0) [''-p'', ''workload=core'', ''-p'', ''fieldcount=ten''] = Inl UnwrapErr"
proof -
  have p: "parse_args (\<lambda>_. None) (\<lambda>_. None :: nat option) [''-p'', ''workload=core'', ''-p'', ''fieldcount=ten''] =
     Inr [''workload'' \<mapsto> TString ''core'', ''fieldcount'' \<mapsto> TString ''ten'']"
    by (simp add: parse_args_def coerce_def parse_i64_def is_digit_def parse_bool_def ascii_lower_def)
  have w: "[''workload'' \<mapsto> TString ''core'', ''fieldcount'' \<mapsto> (TString ''ten'' :: nat toml_value)] ''workload'' = Some (TString ''core'')" by simp
  have c: "deser_core_properties [''workload'' \<mapsto> TString ''core'', ''fieldcount'' \<mapsto> (TString ''ten'' :: nat toml_value)] = Inr (default_core_properties ''core'')"
    by (simp add: deser_core_properties_def field_or_def toml_str_def default_core_properties_def)
  have cl: "deser_client_properties [''workload'' \<mapsto> TString ''core'', ''fieldcount'' \<mapsto> (TString ''ten'' :: nat toml_value)] = Inr \<lparr>operation_count = 0, record_count = 0\<rparr>"
    by (simp add: deser_client_properties_def field_or_def)
  have f: "[''workload'' \<mapsto> TString ''core'', ''fieldcount'' \<mapsto> (TString ''ten'' :: nat toml_value)] ''fieldcount'' = Some (TString ''ten'')" by simp
  show ?thesis using p w c cl f workload_key_type_error [OF p w c cl f, of "\<lambda>_. 0"] by blast
qed

end
