(* ===== verification/Spec2Isabelle.thy ===== *)
theory Spec2Isabelle
  imports Generators Client Storage Workload Driver Driver_Invariant Driver_Liveness Config Main_Setup
begin

text \<open>
  \<^bold>\<open>A verification library for the YCSB load generator of kazuki/rust-practice\<close>
  (\<open>src/ycsb/src\<close>).

  \<^bold>\<open>The program.\<close>  \<open>main.rs\<close> turns the command line into a TOML table
  (\<open>parse_args\<close>), deserialises the properties, builds a \<open>CoreWorkload\<close>
  (\<open>workloads/core.rs\<close>) and one storage handle per worker thread, and drives
  the threads through three waits on one \<open>Barrier\<close>: each worker runs
  \<open>Client::setup_initial_data\<close> (load) and \<open>Client::benchmark\<close> (run) of
  \<open>client.rs\<close>, counting in its \<open>AtomicU64\<close>, while the main thread polls the
  counters in \<open>show_progress\<close> and finally joins the workers.  An insert takes
  the next number of the shared \<open>Counter\<close> (\<open>generators/counter.rs\<close>), builds a
  key (\<open>build_key\<close>) and values (\<open>build_values\<close>, lengths from a \<open>Constant\<close>
  generator) and calls \<open>DB::insert\<close> of \<open>StdBTreeMapMutex\<close> (\<open>db/std_btree.rs\<close>):
  a \<open>BTreeMap\<close> of rows behind a mutex whose columns are resolved through a
  process-wide registry of field names and a per-handle cache of it.  The
  \<open>Zipfian\<close> generator (\<open>generators/zipfian.rs\<close>) is built by nothing yet.

  \<^bold>\<open>Theories.\<close>
  \<^item> \<open>Prelude\<close>: machine types (\<open>u8\<close>, \<open>u32\<close>, \<open>u64\<close> as words), the panics of the
    program as a datatype \<open>panic\<close> (every fallible function returns
    \<open>panic + 'a\<close>), \<open>to_string\<close> on unsigned integers (\<open>dec_string\<close>, inverse
    \<open>dec_value\<close>), \<open>Vec::swap_remove(0)\<close>, and the shared lemmas on words,
    association lists and sums over lists.
  \<^item> \<open>Generators\<close>: \<open>Constant\<close>, \<open>Counter\<close> (\<open>fetch_add\<close> wraps), \<open>Zipfian\<close> (over
    \<open>real\<close>: \<open>powf\<close> as \<open>powr\<close>, the saturating \<open>f64 as u64\<close> cast).  Lemmas:
    \<open>n\<close> counter calls in any interleaving hand out exactly
    \<open>start, .., start + n - 1\<close> (C3, C4); a sample lies in its range (C6); the
    whenever the item count wraps to 0 (the full \<open>u64\<close> range) the sampler
    always returns \<open>min\<close>, for every \<open>theta\<close> (C7).
  \<^item> \<open>Client\<close>: the striping formula \<open>partition_count\<close> (a zero \<open>thread_count\<close>
    is \<open>DivisionByZero\<close>), the load loop over an insert step given as a
    parameter, \<open>benchmark\<close>.  Lemmas: shares sum to the total (C1), differ by at
    most one (C2); a worker performs its share (C5).
  \<^item> \<open>Storage\<close>: engine (\<open>N_COLUMNS\<close>, registry, table as a partial map) and
    handle (its cache), \<open>sync_cache\<close>, \<open>fill_row\<close>, \<open>convert_to_row\<close>,
    \<open>db_insert\<close>, the unused \<open>get_key_indices\<close>; the abstraction \<open>abs_db\<close> reads
    rows through the registry.  Lemmas: insert never panics (C9); with a
    handle in sync it refines a map update, so a second insert of a key
    replaces its row (C8); a fresh handle reallocates registered names (C10),
    and its first insert hides those fields in every other row (C11).  \<open>get_key_indices\<close>
    equals the one-value-at-a-time reference \<open>key_indices_ref\<close> when the
    field names are distinct (C37), and allocates a repeated new name twice
    (C38).
  \<^item> \<open>Workload\<close>: \<open>Properties\<close> with its defaults, \<open>CoreWorkload::new\<close>,
    \<open>build_key\<close> (the \<open>i32\<close> fill in a 32-bit word), \<open>build_values\<close>,
    \<open>do_insert\<close>.  Lemmas: keys round-trip (C13), their shape (C14), the fill
    wraps at \<open>zeropadding = 2^31\<close> (C15); \<open>new\<close> (C16, C17), \<open>build_values\<close>
    (C18), \<open>do_insert\<close> refines a table update (C19).
  \<^item> \<open>Driver\<close>: \<open>main\<close>, \<open>init_clients\<close> and the worker closure as a state
    machine.  The state \<open>driver\<close> holds the main thread's point \<open>cpc\<close>, each
    worker's point \<open>wpc\<close>, its \<open>todo\<close> and \<open>progress\<close> counter and handle, and the
    shared key counter and engine.  An \<open>event\<close> says who moves: \<open>Worker i\<close>
    (\<open>worker_step\<close>: one statement of the closure, one \<open>do_insert\<close> being one
    step), \<open>Coord\<close> (\<open>coord_step\<close>: reading \<open>start_time\<close>, computing the
    load time, one \<open>show_progress\<close> poll or one join) or
    \<open>Release\<close> (the barrier, when all \<open>thread_count + 1\<close> participants wait).
    \<open>reach\<close> is the inductive set of states of all interleavings, \<open>run\<close>
    executes one schedule; every step advances a logical clock, which
    \<open>Instant::now()\<close> reads.  Lemmas: \<open>recordcount = 0\<close> (the default) never
    completes (C21), \<open>threadcount = 0\<close> hangs (C22), and the run report can end
    before the run phase because the counters are reset after the barrier (C23);
    the measured load time can be 0 because \<open>start_time\<close> is read after the
    workers are released (C12).
  \<^item> \<open>Driver_Invariant\<close>: the invariant \<open>drv_inv\<close> (each counter against its
    share at each point, the pairing of the threads' points, the key counter
    and the table accounting for every insert), preserved by every step and
    so true of every reachable state (C24).  At the second barrier the
    counters sum to \<open>recordcount\<close> and the table holds exactly the keys of
    \<open>insertstart ..\<close> (C25), \<open>recordcount\<close> distinct ones when ordered (C26), for
    any number of threads and any interleaving.
  \<^item> \<open>Driver_Liveness\<close>: some schedule completes the run when no count is 0
    (C27), built worker by worker and proved by induction on what is left;
    and every schedule has a bounded number of worker steps (C36), by the
    variant \<open>steps_left\<close> that each worker step lowers by one.
  \<^item> \<open>Config\<close>: \<open>parse_args\<close>.  \<open>-P\<close> files compose with the later file
    winning (C29), but overrides are applied after all files (C28), integers round-trip through the coercion (C30), a \<open>-p\<close> without
    \<open>=\<close> aborts (C31), unknown arguments are skipped (C32).
  \<^item> \<open>Main_Setup\<close>: serde's deserialisation of \<open>CoreProperties\<close>,
    \<open>ClientProperties\<close> and the workload's \<open>Properties\<close> (defaults,
    range-checked integers, the required \<open>workload\<close>; \<open>deser_properties\<close> reads
    the workload's keys one \<open>set_field\<close> at a time from the defaults, and
    \<open>workload_props\<close> is the \<open>unwrap\<close> of \<open>CoreWorkload::new\<close>) and
    \<open>main\<close> up to \<open>init_clients\<close>, joining \<open>Config\<close> and \<open>Driver\<close>.  Lemmas:
    every command line leaving \<open>recordcount\<close> unset starts a run that cannot
    complete (C33); an out-of-range \<open>threadcount\<close> is an error (C34); a
    workload property of the wrong type is a panic (C40).
  \<^item> This theory: a single ordered worker's load phase, through
    \<open>setup_initial_data\<close>, inserts exactly \<open>recordcount\<close> distinct keys (C20).
    And the whole program end to end: \<open>-p workload=core -p recordcount=R
    -p operationcount=O\<close> builds the clients and some interleaving completes
    the run (C39), from \<open>Config\<close>, \<open>Main_Setup\<close> and \<open>Driver_Liveness\<close>.

  \<^bold>\<open>Library services as parameters.\<close>  \<open>DefaultHasher\<close> is a function
  \<open>hash :: u64 \<Rightarrow> u64\<close>; \<open>thread_rng().fill_bytes\<close> a byte stream per thread,
  read from a position; the Zipfian sampler's uniform \<open>f64\<close> an argument in
  \<open>[0, 1)\<close>; reading and parsing a TOML file and \<open>str::parse::<f64>\<close> functions
  returning an option, and the value of a TOML float a function \<open>fr\<close> to the
  reals (an integer given for an \<open>f64\<close> is read exactly).  Theorems hold for every such function.
  \<open>Vec::with_capacity(n)\<close> followed by \<open>set_len(capacity())\<close> is taken to have
  length \<open>n\<close>.

  \<^bold>\<open>Bounds, fuel, atomicity.\<close>  No fuel: every loop is structural recursion
  or a \<open>function\<close> with a measure (\<open>zetastatic\<close>: \<open>n - st\<close>; \<open>fill_row\<close>: values
  left), the threads' loops are steps of the state machine, and the driver's
  termination is the existence of a completing schedule (C27) together with
  the bound on the worker steps of any schedule (C36); the main thread's
  polling loop may spin without end while workers are slow, which is the
  behaviour of the source's \<open>loop { sleep; ... }\<close>.  Counts keep
  their width: \<open>u64\<close> counters wrap, and the key theorems assume
  \<open>insertstart + recordcount \<le> 2^64\<close>.  One \<open>do_insert\<close> is one atomic step of
  the driver: its counter update is atomic and its table write holds the
  table's mutex; the registry's read-then-write inside \<open>fill_row\<close> is not
  interleaved, which only removes interleavings, and the registry defects
  shown in \<open>Storage\<close> already occur without them.

  \<^bold>\<open>Not modelled.\<close>  Printing, and with it the throughput formatted
  from the load time; the durations of steps (every step takes one tick of
  the logical clock) and the 50 ms sleep of the report loop, which only
  spaces the polls; the \<open>StdBTreeMapRwLock\<close> variant (an empty stub);
  floating-point rounding in the Zipfian sampler (real arithmetic stands in
  for \<open>f64\<close>).
\<close>

lemma partition_count_one: "partition_count amount 0 1 = Inr amount"
  by (simp add: partition_count_def)

text \<open>
  C20: end to end, a single worker's load phase (\<open>threadcount = 1\<close>) with
  ordered inserts, on a fresh engine and handle, never panics, reports
  \<open>recordcount\<close> inserts, and leaves exactly \<open>recordcount\<close> distinct keys in the
  table: those built from \<open>insertstart\<close>, \<open>insertstart + 1\<close>, and so on.
\<close>

theorem single_worker_ordered_load:
  assumes w: "workload_new props client_props = Inr w"
    and o: "insert_order props \<noteq> ''hashed''"
    and b: "unat (insert_start props) + unat (record_count client_props) \<le> 2 ^ 64"
  shows "\<exists>s'. setup_initial_data (do_insert hash w rng) client_props 0 1 (load_state w, 0) =
               Inr (s', record_count client_props) \<and> in_sync s' \<and>
             dom (abs_db (eng s')) =
               (\<lambda>i. build_key hash w (insert_start props + word_of_nat i)) ` {..<unat (record_count client_props)} \<and>
             card (dom (abs_db (eng s'))) = unat (record_count client_props)"
proof -
  have f: "key_sequence w = counter_new (insert_start props)"
      "ordered_inserts w = (insert_order props \<noteq> ''hashed'')"
      "field_names w = map (\<lambda>i. field_name_prefix props @ dec_string i) [0..<unat (field_count props)]"
    using workload_new_fields [OF w] by simp_all
  have d: "distinct (field_names w)" using f(3) distinct_prefixed_names by simp
  have ord: "ordered_inserts w" using f(2) o by simp
  have k: "counter (keys (load_state w)) = insert_start props"
    using f(1) by (simp add: load_state_def counter_new_def)
  obtain s' where s': "insert_loop (do_insert hash w rng) (unat (record_count client_props)) (load_state w, 0) =
        Inr (s', 0 + word_of_nat (unat (record_count client_props)))" "in_sync s'"
      "dom (abs_db (eng s')) = dom (abs_db (eng (load_state w))) \<union>
         (\<lambda>i. build_key hash w (counter (keys (load_state w)) + word_of_nat i)) ` {..<unat (record_count client_props)}"
    using do_insert_loop [OF in_sync_load_state d] by blast
  have dom: "dom (abs_db (eng s')) =
      (\<lambda>i. build_key hash w (insert_start props + word_of_nat i)) ` {..<unat (record_count client_props)}"
    using s'(3) k by (simp add: load_state_def abs_db_engine_init)
  have card: "card (dom (abs_db (eng s'))) = unat (record_count client_props)"
    unfolding dom using card_image [OF build_key_ordered_inj [OF ord b, of hash]] by simp
  show ?thesis
    using s'(1,2) dom card by (simp add: setup_initial_data_def partition_count_one)
qed

lemma single_worker_ordered_load_witness:
  "workload_new (default_core_props\<lparr>insert_order := ''ordered''\<rparr>) (default_client_properties\<lparr>record_count := 3\<rparr>) =
     Inr \<lparr>cw_client_props = default_client_properties\<lparr>record_count := 3\<rparr>,
          cw_props = default_core_props\<lparr>insert_order := ''ordered''\<rparr>, key_sequence = counter_new 0,
          ordered_inserts = True, field_length_generator = GConstant (constant_new 100),
          field_names = map (\<lambda>i. ''field'' @ dec_string i) [0..<10]\<rparr> \<and>
   insert_order (default_core_props\<lparr>insert_order := ''ordered''\<rparr>) \<noteq> ''hashed'' \<and>
   unat (insert_start (default_core_props\<lparr>insert_order := ''ordered''\<rparr>)) +
     unat (record_count (default_client_properties\<lparr>record_count := 3\<rparr>)) \<le> 2 ^ 64 \<and>
   (\<exists>s'. setup_initial_data (do_insert id
        \<lparr>cw_client_props = default_client_properties\<lparr>record_count := 3\<rparr>,
          cw_props = default_core_props\<lparr>insert_order := ''ordered''\<rparr>, key_sequence = counter_new 0,
          ordered_inserts = True, field_length_generator = GConstant (constant_new 100),
          field_names = map (\<lambda>i. ''field'' @ dec_string i) [0..<10]\<rparr> (\<lambda>_. 0))
        (default_client_properties\<lparr>record_count := 3\<rparr>) 0 1
        (load_state
        \<lparr>cw_client_props = default_client_properties\<lparr>record_count := 3\<rparr>,
          cw_props = default_core_props\<lparr>insert_order := ''ordered''\<rparr>, key_sequence = counter_new 0,
          ordered_inserts = True, field_length_generator = GConstant (constant_new 100),
          field_names = map (\<lambda>i. ''field'' @ dec_string i) [0..<10]\<rparr>, 0) = Inr (s', 3) \<and>
      card (dom (abs_db (eng s'))) = 3)"
proof -
  let ?P = "default_core_props\<lparr>insert_order := ''ordered''\<rparr>"
  let ?C = "default_client_properties\<lparr>record_count := 3\<rparr>"
  let ?w = "\<lparr>cw_client_props = ?C, cw_props = ?P, key_sequence = counter_new 0,
          ordered_inserts = True, field_length_generator = GConstant (constant_new 100),
          field_names = map (\<lambda>i. ''field'' @ dec_string i) [0..<10]\<rparr>"
  have w: "workload_new ?P ?C = Inr ?w" by (simp add: workload_new_def default_core_props_def Let_def)
  have o: "insert_order ?P \<noteq> ''hashed''" by simp
  have b: "unat (insert_start ?P) + unat (record_count ?C) \<le> 2 ^ 64"
    by (simp add: default_core_props_def)
  show ?thesis
  proof (intro conjI)
    show "\<exists>s'. setup_initial_data (do_insert id ?w (\<lambda>_. 0)) ?C 0 1 (load_state ?w, 0) = Inr (s', 3) \<and>
              card (dom (abs_db (eng s'))) = 3"
      using single_worker_ordered_load [OF w o b, of id "\<lambda>_. 0"] by auto
  qed (fact w o b)+
qed

text \<open>
  C39: end to end, the command line
  \<open>-p workload=core -p recordcount=R -p operationcount=O\<close> with \<open>R\<close> and
  \<open>O\<close> between 1 and \<open>2^63 - 1\<close> is parsed, deserialised with every other
  property at its default, builds the clients, and some interleaving runs
  the program to completion, provided the \<open>f64\<close> parser rejects \<open>core\<close>.
\<close>

theorem command_line_run_completes:
  assumes pf: "pf ''core'' = None" and r: "0 < R" "R < 2 ^ 63" and o: "0 < Ops" "Ops < 2 ^ 63"
  shows "\<exists>s0. main_setup load pf fr [''-p'', ''workload=core'', ''-p'', ''recordcount='' @ dec_string R,
                                     ''-p'', ''operationcount='' @ dec_string Ops] = Inr s0 \<and>
           (\<exists>evs s. run hash rng evs s0 = Some s \<and> cpc s = CDone)"
proof -
  let ?cp = "\<lparr>operation_count = word_of_nat Ops, record_count = word_of_nat R\<rparr> :: client_properties"
  obtain s0 where i: "init_clients (default_core_properties ''core'') ?cp default_core_props = Inr s0"
    using init_clients_default_ok by blast
  have t: "thread_count (default_core_properties ''core'') \<noteq> 0" by (simp add: default_core_properties_def)
  have rc: "record_count ?cp \<noteq> 0" and oc: "operation_count ?cp \<noteq> 0"
    using r o by (simp_all add: word_of_nat_eq_0_iff nat_dvd_not_less)
  show ?thesis using main_setup_core_run [where pf = pf and R = R and Ops = Ops and load = load and fr = fr, OF pf r(2) o(2)] i run_completes_sched [OF i t rc oc, of hash rng]
    by simp
qed

lemma command_line_run_completes_witness:
  "(\<lambda>_. None :: nat option) ''core'' = None \<and> 0 < (3::nat) \<and> (3::nat) < 2 ^ 63 \<and> 0 < (1::nat) \<and> (1::nat) < 2 ^ 63 \<and>
   (\<exists>s0. main_setup (\<lambda>_. None) (\<lambda>_. None :: nat option) (\<lambda>_. 0) [''-p'', ''workload=core'', ''-p'', ''recordcount='' @ dec_string 3,
                                     ''-p'', ''operationcount='' @ dec_string 1] = Inr s0 \<and>
     (\<exists>evs s. run id (\<lambda>_ _. 0) evs s0 = Some s \<and> cpc s = CDone))"
proof -
  have h: "(\<lambda>_. None :: nat option) ''core'' = None" "0 < (3::nat)" "(3::nat) < 2 ^ 63" "0 < (1::nat)" "(1::nat) < 2 ^ 63"
    by simp_all
  show ?thesis using h command_line_run_completes [where pf = "\<lambda>_. None :: nat option" and R = 3 and Ops = 1
      and load = "\<lambda>_. None" and fr = "\<lambda>_. 0" and hash = id and rng = "\<lambda>_ _. 0", OF h] by blast
qed

end
